theory Spec2Isabelle
  imports Main "HOL-Library.Sublist"
begin

section \<open>Python strings\<close>

text \<open>
  A Python \<open>str\<close> is a sequence of Unicode code points; it is modelled as a list of
  natural numbers, one per code point. \<open>py\<close> turns an ASCII literal into such a list.
  Non-ASCII characters of the literals of \<open>sandbox.py\<close> are written as the code points
  the file holds.
\<close>

type_synonym pystr = "nat list"

type_synonym bytes = "nat list"

definition py :: "string \<Rightarrow> pystr" where
  "py s = map of_char s"

text \<open>\<open>str.isspace\<close> of one code point: the characters \<open>str.strip()\<close> removes.\<close>

definition is_space :: "nat \<Rightarrow> bool" where
  "is_space c \<longleftrightarrow>
     (0x09 \<le> c \<and> c \<le> 0x0D) \<or> (0x1C \<le> c \<and> c \<le> 0x20) \<or> c = 0x85 \<or> c = 0xA0 \<or>
     c = 0x1680 \<or> (0x2000 \<le> c \<and> c \<le> 0x200A) \<or> c = 0x2028 \<or> c = 0x2029 \<or>
     c = 0x202F \<or> c = 0x205F \<or> c = 0x3000"

text \<open>The line boundaries of \<open>str.splitlines()\<close>.\<close>

definition is_linebreak :: "nat \<Rightarrow> bool" where
  "is_linebreak c \<longleftrightarrow>
     (0x0A \<le> c \<and> c \<le> 0x0D) \<or> (0x1C \<le> c \<and> c \<le> 0x1E) \<or> c = 0x85 \<or>
     c = 0x2028 \<or> c = 0x2029"

text \<open>\<open>s.strip()\<close>: leading and trailing whitespace removed.\<close>

definition strip :: "pystr \<Rightarrow> pystr" where
  "strip s = rev (dropWhile is_space (rev (dropWhile is_space s)))"

text \<open>
  \<open>s.splitlines()\<close>: the text up to the next line boundary is a line; the boundary is
  dropped, \<open>\r\n\<close> counting as one; the empty string has no line, and a final boundary
  opens no further line.
\<close>

function splitlines :: "pystr \<Rightarrow> pystr list" where
  "splitlines s =
     (if s = [] then []
      else takeWhile (\<lambda>c. \<not> is_linebreak c) s #
        (case dropWhile (\<lambda>c. \<not> is_linebreak c) s of
           [] \<Rightarrow> []
         | c # r \<Rightarrow>
             (case r of
                [] \<Rightarrow> []
              | d # r' \<Rightarrow> if c = 0x0D \<and> d = 0x0A then splitlines r' else splitlines r)))"
  by pat_completeness auto
termination
proof (relation "measure length")
  show "wf (measure length)" by simp
next
  fix s :: pystr and c r d r'
  assume "dropWhile (\<lambda>c. \<not> is_linebreak c) s = c # r" and "r = d # r'"
  then have "length (c # d # r') \<le> length s"
    using length_dropWhile_le [of "\<lambda>c. \<not> is_linebreak c" s] by simp
  then show "(r', s) \<in> measure length" by simp
next
  fix s :: pystr and c r d r'
  assume "dropWhile (\<lambda>c. \<not> is_linebreak c) s = c # r" and "r = d # r'"
  then have "length (c # r) \<le> length s"
    using length_dropWhile_le [of "\<lambda>c. \<not> is_linebreak c" s] by simp
  then show "(r, s) \<in> measure length" by simp
qed

declare splitlines.simps [simp del]

text \<open>\<open>s.startswith(p)\<close>, \<open>sep.join(xs)\<close> and the substring test \<open>p in s\<close>.\<close>

definition startswith :: "pystr \<Rightarrow> pystr \<Rightarrow> bool" where
  "startswith s p \<longleftrightarrow> take (length p) s = p"

fun join :: "pystr \<Rightarrow> pystr list \<Rightarrow> pystr" where
  "join sep [] = []"
| "join sep [x] = x"
| "join sep (x # y # ys) = x @ sep @ join sep (y # ys)"

fun contains :: "pystr \<Rightarrow> pystr \<Rightarrow> bool" where
  "contains [] p = (p = [])"
| "contains (c # cs) p = (startswith (c # cs) p \<or> contains cs p)"

section \<open>The error translator\<close>

text \<open>
  \<open>_make_friendly_error(raw)\<close>: the first test that finds its substring in \<open>raw\<close>
  decides the message.
\<close>

definition make_friendly_error :: "pystr \<Rightarrow> pystr" where
  "make_friendly_error raw =
     (if contains raw (py ''ImportError'') \<or> contains raw (py ''ModuleNotFoundError'') then
        [0x11F, 0x178, 0x161, 0xAB] @ py '' Import blocked: '' @ raw @ [0x0A] @
        py ''Only `import cv2` and `import numpy as np` are allowed.''
      else if contains raw (py ''SyntaxError'') then
        [0xE2, 0x153, 0xEF, 0xB8] @ py '' Syntax error in your code: '' @ raw
      else if contains raw (py ''NameError'') then
        [0xE2, 0x201C] @ py '' Name not found: '' @ raw @ [0x0A] @
        py ''Did you define this variable?''
      else if contains raw (py ''TypeError'') then
        [0x11F, 0x178, 0x201D, 0xA7] @ py '' Type error: '' @ raw
      else if contains raw (py ''AttributeError'') then
        [0x11F, 0x178, 0x201D] @ py '' Attribute error: '' @ raw @ [0x0A] @
        py ''Check the OpenCV function name.''
      else [0xE2, 0x152] @ py '' Error: '' @ raw)"

section \<open>Results, exceptions and the environment\<close>

text \<open>The dictionary every runner returns, and the one \<open>stop_local\<close> returns.\<close>

record result =
  image_b64 :: "pystr option"
  logs :: pystr
  error :: pystr

record stop_result =
  stopped :: bool
  message :: pystr

text \<open>
  The exceptions the orchestration can meet, each with its \<open>str(e)\<close>. All three are
  subclasses of \<open>Exception\<close>; \<open>TimeoutExpired\<close> is the one of \<open>subprocess\<close>.
\<close>

datatype py_exc = TimeoutExpired pystr | OSError pystr | OtherException pystr

fun str_exc :: "py_exc \<Rightarrow> pystr" where
  "str_exc (TimeoutExpired m) = m"
| "str_exc (OSError m) = m"
| "str_exc (OtherException m) = m"

text \<open>
  A scratch workspace is a flat directory: entry name to content. \<open>kata.py\<close> holds text,
  an uploaded asset holds bytes.
\<close>

datatype content = Text pystr | Bytes bytes

type_synonym dir = "pystr \<rightharpoonup> content"

text \<open>What \<open>subprocess.run\<close> does with the bounded child.\<close>

datatype run_outcome = CompletedProcess pystr pystr | RunRaises py_exc

text \<open>
  The environment of one call. Every effect of the operating system that the code cannot
  decide is a field: whether a directory can be created, whether a file can be written,
  what the child does with the workspace it is started in, whether a process can be
  spawned, whether a process asked to terminate is gone within the grace period, and
  whether a workspace can be removed.
\<close>

record world =
  mkdtemp_fault :: "pystr option"
  write_fault :: "pystr \<Rightarrow> pystr option"
  subprocess_run :: "dir \<Rightarrow> run_outcome"
  Popen_fault :: "pystr option"
  exits_in_grace :: bool
  remove_fault :: "pystr option"

section \<open>Materialising the inputs\<close>

text \<open>\<open>s.split('/')\<close>, as \<open>pathlib\<close> uses it on a POSIX path.\<close>

fun split_sep :: "pystr \<Rightarrow> pystr list" where
  "split_sep [] = [[]]"
| "split_sep (c # cs) =
     (if c = 0x2F then [] # split_sep cs
      else (case split_sep cs of [] \<Rightarrow> [[c]] | l # ls \<Rightarrow> (c # l) # ls))"

text \<open>
  \<open>Path(filename).name\<close> on a POSIX host: the path is cut at \<open>/\<close>, empty components
  and \<open>.\<close> are dropped, and the name is the last component left, or the empty string.
\<close>

definition path_parts :: "pystr \<Rightarrow> pystr list" where
  "path_parts p = filter (\<lambda>x. x \<noteq> [] \<and> x \<noteq> py ''.'') (split_sep p)"

definition Path_name :: "pystr \<Rightarrow> pystr" where
  "Path_name p = (if path_parts p = [] then [] else last (path_parts p))"

text \<open>
  Writing one entry of the workspace (\<open>write_text\<close>, \<open>write_bytes\<close>). The entry \<open>..\<close>
  of a directory is its parent, a directory, which cannot be opened for writing; any
  other write succeeds unless the environment refuses it. A refused write leaves the
  directory as it was.
\<close>

definition write_entry :: "world \<Rightarrow> dir \<Rightarrow> pystr \<Rightarrow> content \<Rightarrow> dir \<times> py_exc option" where
  "write_entry w d name c =
     (if name = py ''..'' then (d, Some (OSError (py ''[Errno 21] Is a directory'')))
      else (case write_fault w name of
              Some m \<Rightarrow> (d, Some (OSError m))
            | None \<Rightarrow> (d(name \<mapsto> c), None)))"

text \<open>The loop of \<open>_write_uploaded_files\<close>; an exception ends it.\<close>

fun write_each :: "world \<Rightarrow> dir \<Rightarrow> (pystr \<times> bytes) list \<Rightarrow> dir \<times> py_exc option" where
  "write_each w run_dir [] = (run_dir, None)"
| "write_each w run_dir ((filename, content) # rest) =
     (let safe_name = Path_name filename in
      if safe_name = [] then write_each w run_dir rest
      else (case write_entry w run_dir safe_name (Bytes content) of
              (d, Some e) \<Rightarrow> (d, Some e)
            | (d, None) \<Rightarrow> write_each w d rest))"

text \<open>\<open>_write_uploaded_files(run_dir, uploaded_files)\<close>; the list may be \<open>None\<close>.\<close>

definition write_uploaded_files ::
  "world \<Rightarrow> dir \<Rightarrow> (pystr \<times> bytes) list option \<Rightarrow> dir \<times> py_exc option" where
  "write_uploaded_files w run_dir uploaded_files =
     (case uploaded_files of
        None \<Rightarrow> (run_dir, None)
      | Some fs \<Rightarrow> if fs = [] then (run_dir, None) else write_each w run_dir fs)"

section \<open>The bounded runner\<close>

definition TIMEOUT_SECONDS :: nat where
  "TIMEOUT_SECONDS = 10"

text \<open>\<open>str(n)\<close> of a natural number, as the f-string formats the time budget.\<close>

function str_nat :: "nat \<Rightarrow> pystr" where
  "str_nat n = (if n < 10 then [48 + n] else str_nat (n div 10) @ [48 + n mod 10])"
  by pat_completeness auto
termination
  by (relation "measure id") auto

declare str_nat.simps [simp del]

text \<open>The loop over the lines of stdout; the state is \<open>(image_b64, logs_lines)\<close>.\<close>

fun parse_stdout :: "pystr list \<Rightarrow> pystr option \<times> pystr list \<Rightarrow> pystr option \<times> pystr list" where
  "parse_stdout [] st = st"
| "parse_stdout (line # rest) (img, logs_lines) =
     (if startswith line (py ''IMAGE:'') then
        parse_stdout rest (Some (drop (length (py ''IMAGE:'')) line), logs_lines)
      else if startswith line (py ''INFO:'') then
        parse_stdout rest (img, logs_lines @ [drop (length (py ''INFO:'')) line])
      else parse_stdout rest (img, logs_lines @ [line]))"

text \<open>The loop over the lines of stderr; the state is \<open>(error, logs_lines)\<close>.\<close>

fun parse_stderr :: "pystr list \<Rightarrow> pystr \<times> pystr list \<Rightarrow> pystr \<times> pystr list" where
  "parse_stderr [] st = st"
| "parse_stderr (line # rest) (err, logs_lines) =
     (if startswith line (py ''EXEC_ERROR:'') then
        parse_stderr rest
          (make_friendly_error (drop (length (py ''EXEC_ERROR:'')) line), logs_lines)
      else parse_stderr rest (err, logs_lines @ [line]))"

text \<open>What \<open>run_code\<close> does with the two captured streams of a child that exited.\<close>

definition parse_output :: "pystr \<Rightarrow> pystr \<Rightarrow> result" where
  "parse_output out err =
     (let stdout = strip out;
          stderr = strip err;
          (img, logs_lines) = parse_stdout (splitlines stdout) (None, []);
          (err_msg, logs_lines) =
             (if stderr \<noteq> [] then parse_stderr (splitlines stderr) ([], logs_lines)
              else ([], logs_lines))
      in \<lparr>image_b64 = img, logs = join [0x0A] logs_lines, error = err_msg\<rparr>)"

text \<open>
  The body of the \<open>with\<close> block of \<open>run_code\<close>: the source and the assets are
  written into the scratch directory, the wrapper is run in it and its output parsed.
\<close>

definition run_code_with :: "world \<Rightarrow> pystr \<Rightarrow> (pystr \<times> bytes) list option \<Rightarrow> py_exc + result" where
  "run_code_with w code uploaded_files =
     (case write_entry w Map.empty (py ''kata.py'') (Text code) of
        (d, Some e) \<Rightarrow> Inl e
      | (d, None) \<Rightarrow>
          (case write_uploaded_files w d uploaded_files of
             (d, Some e) \<Rightarrow> Inl e
           | (d, None) \<Rightarrow>
               (case subprocess_run w d of
                  RunRaises e \<Rightarrow> Inl e
                | CompletedProcess out err \<Rightarrow> Inr (parse_output out err))))"

text \<open>
  The body of the \<open>try\<close> of \<open>run_code\<close>: the scratch directory is created, the
  \<open>with\<close> block is run, and on leaving it, with a result or with an exception, the
  directory is removed. The removal stands inside the \<open>try\<close>: when it fails, its
  \<open>OSError\<close> takes the place of the result or of the exception of the block.
\<close>

definition run_code_try :: "world \<Rightarrow> pystr \<Rightarrow> (pystr \<times> bytes) list option \<Rightarrow> py_exc + result" where
  "run_code_try w code uploaded_files =
     (case mkdtemp_fault w of
        Some m \<Rightarrow> Inl (OSError m)
      | None \<Rightarrow>
          (let r = run_code_with w code uploaded_files
           in (case remove_fault w of
                 Some m \<Rightarrow> Inl (OSError m)
               | None \<Rightarrow> r)))"

text \<open>\<open>run_code\<close>: the \<open>try\<close> with its two handlers, in the order of the source.\<close>

definition timeout_message :: pystr where
  "timeout_message =
     [0xE2, 0xB1] @ py '' Execution timed out after '' @ str_nat TIMEOUT_SECONDS @
     py '' seconds. '' @ py ''Check for infinite loops.''"

definition run_code :: "world \<Rightarrow> pystr \<Rightarrow> (pystr \<times> bytes) list option \<Rightarrow> py_exc + result" where
  "run_code w code uploaded_files =
     (case run_code_try w code uploaded_files of
        Inr r \<Rightarrow> Inr r
      | Inl (TimeoutExpired m) \<Rightarrow>
          Inr \<lparr>image_b64 = None, logs = [], error = timeout_message\<rparr>
      | Inl e \<Rightarrow>
          Inr \<lparr>image_b64 = None, logs = [], error = py ''Execution failed: '' @ str_exc e\<rparr>)"

section \<open>The foreground runner and the process registry\<close>

text \<open>
  The module state: the registry slot \<open>_active_local_process\<close>, the foreground
  processes spawned so far (a handle is the index of its process) and the signals sent
  to them, the scratch directories made by \<open>mkdtemp\<close> (an index each, \<open>None\<close> once
  removed), and the \<open>_cleanup\<close> threads that have been started and have not yet run,
  each with the process it waits for and the directory it will remove.
\<close>

datatype status = Running | Exited

datatype signal = SIGTERM | SIGKILL

record state =
  active_local_process :: "nat option"
  procs :: "status list"
  signals :: "(nat \<times> signal) list"
  dirs :: "dir option list"
  watchers :: "(nat \<times> nat) list"

definition init :: state where
  "init = \<lparr>active_local_process = None, procs = [], signals = [], dirs = [], watchers = []\<rparr>"

text \<open>\<open>proc.poll() is None\<close>: the process has not exited.\<close>

definition running :: "state \<Rightarrow> nat \<Rightarrow> bool" where
  "running s p \<longleftrightarrow> p < length (procs s) \<and> procs s ! p = Running"

text \<open>
  \<open>stop_local()\<close>. Under the lock the handle is taken and the slot cleared. A process
  still running is sent \<open>terminate()\<close>; if \<open>wait(timeout=3)\<close> raises
  \<open>TimeoutExpired\<close> it is sent \<open>kill()\<close>. Either way it is gone.
\<close>

definition stop_local :: "world \<Rightarrow> state \<Rightarrow> stop_result \<times> state" where
  "stop_local w s0 =
     (let proc = active_local_process s0;
          s = s0\<lparr>active_local_process := None\<rparr>
      in (case proc of
            Some p \<Rightarrow>
              if running s p then
                (let s = s\<lparr>signals := signals s @ [(p, SIGTERM)]\<rparr>;
                     s = (if exits_in_grace w then s
                          else s\<lparr>signals := signals s @ [(p, SIGKILL)]\<rparr>);
                     s = s\<lparr>procs := (procs s)[p := Exited]\<rparr>
                 in (\<lparr>stopped = True, message = py ''Local process stopped.''\<rparr>, s))
              else (\<lparr>stopped = False, message = py ''No local process was running.''\<rparr>, s)
          | None \<Rightarrow> (\<lparr>stopped = False, message = py ''No local process was running.''\<rparr>, s)))"

text \<open>
  The removal of a workspace, as \<open>_cleanup\<close> and the handler of \<open>run_local\<close> both do
  it: the files are unlinked and the directory removed, and an \<open>OSError\<close> on the way
  is swallowed, the directory then staying behind.
\<close>

definition remove_workspace :: "world \<Rightarrow> nat \<Rightarrow> state \<Rightarrow> state" where
  "remove_workspace w run_dir s =
     (case remove_fault w of
        Some m \<Rightarrow> s
      | None \<Rightarrow> s\<lparr>dirs := (dirs s)[run_dir := None]\<rparr>)"

definition launched_message :: pystr where
  "launched_message =
     py ''Running on your desktop '' @ [0xE2, 0x20AC, 0x201D] @
     py '' an OpenCV window should appear.'' @ [0x0A] @
     py ''Press 'q' in the OpenCV window to quit.''"

text \<open>
  \<open>run_local\<close>. The prior process is stopped; the directory is made and the source and
  the assets written, all before the \<open>try\<close>, so an exception there leaves the function;
  inside the \<open>try\<close> the child is spawned, registered under the lock and given its
  \<open>_cleanup\<close> thread, and a failure to spawn is handled by removing the workspace and
  returning the error.
\<close>

definition run_local ::
  "world \<Rightarrow> pystr \<Rightarrow> (pystr \<times> bytes) list option \<Rightarrow> state \<Rightarrow> (py_exc + result) \<times> state" where
  "run_local w code uploaded_files s0 =
     (let s = snd (stop_local w s0) in
      (case mkdtemp_fault w of
         Some m \<Rightarrow> (Inl (OSError m), s)
       | None \<Rightarrow>
           (let run_dir = length (dirs s);
                s = s\<lparr>dirs := dirs s @ [Some Map.empty]\<rparr>
            in (case write_entry w Map.empty (py ''kata.py'') (Text code) of
                  (d, Some e) \<Rightarrow> (Inl e, s\<lparr>dirs := (dirs s)[run_dir := Some d]\<rparr>)
                | (d, None) \<Rightarrow>
                    (case write_uploaded_files w d uploaded_files of
                       (d, Some e) \<Rightarrow> (Inl e, s\<lparr>dirs := (dirs s)[run_dir := Some d]\<rparr>)
                     | (d, None) \<Rightarrow>
                         (let s = s\<lparr>dirs := (dirs s)[run_dir := Some d]\<rparr>
                          in (case Popen_fault w of
                                None \<Rightarrow>
                                  (let proc = length (procs s);
                                       s = s\<lparr>procs := procs s @ [Running]\<rparr>;
                                       s = s\<lparr>active_local_process := Some proc\<rparr>;
                                       s = s\<lparr>watchers := watchers s @ [(proc, run_dir)]\<rparr>
                                   in (Inr \<lparr>image_b64 = None, logs = launched_message,
                                             error = []\<rparr>, s))
                              | Some m \<Rightarrow>
                                  (Inr \<lparr>image_b64 = None, logs = [],
                                        error = py ''Failed to launch: '' @ m\<rparr>,
                                   remove_workspace w run_dir s))))))))"

text \<open>
  The body of a \<open>_cleanup\<close> thread once \<open>proc.wait()\<close> has returned: under the lock the
  slot is cleared if it still holds this process, then the workspace is removed.
\<close>

definition cleanup :: "world \<Rightarrow> nat \<Rightarrow> nat \<Rightarrow> state \<Rightarrow> state" where
  "cleanup w proc run_dir s0 =
     (let s = (if active_local_process s0 = Some proc then s0\<lparr>active_local_process := None\<rparr>
               else s0)
      in remove_workspace w run_dir s)"

text \<open>
  What can happen to the module state. The router is an \<open>async\<close> handler that calls
  \<open>run_local\<close> and \<open>stop_local\<close> without awaiting inside them, so calls do not
  overlap; a process can exit by itself at any moment; and a \<open>_cleanup\<close> thread runs
  once its process has exited. Here a call is one event; the next section cuts the calls
  and the \<open>_cleanup\<close> thread at their critical sections and has the lock.
\<close>

datatype event =
  Launch world pystr "(pystr \<times> bytes) list option"
| Stop world
| ProcessExit nat
| Cleanup world nat nat

fun step :: "state \<Rightarrow> event \<Rightarrow> state option" where
  "step s (Launch w code uploaded_files) = Some (snd (run_local w code uploaded_files s))"
| "step s (Stop w) = Some (snd (stop_local w s))"
| "step s (ProcessExit p) =
     (if running s p then Some (s\<lparr>procs := (procs s)[p := Exited]\<rparr>) else None)"
| "step s (Cleanup w p d) =
     (if (p, d) \<in> set (watchers s) \<and> p < length (procs s) \<and> \<not> running s p
      then Some (cleanup w p d (s\<lparr>watchers := remove1 (p, d) (watchers s)\<rparr>))
      else None)"

fun exec :: "state \<Rightarrow> event list \<Rightarrow> state option" where
  "exec s [] = Some s"
| "exec s (e # es) = (case step s e of None \<Rightarrow> None | Some s' \<Rightarrow> exec s' es)"

text \<open>An environment without faults whose bounded child behaves as given.\<close>

definition calm :: "run_outcome \<Rightarrow> world" where
  "calm oc =
     \<lparr>mkdtemp_fault = None, write_fault = (\<lambda>n. None), subprocess_run = (\<lambda>d. oc),
      Popen_fault = None, exits_in_grace = True, remove_fault = None\<rparr>"

section \<open>The registry lock and the interleaving of threads\<close>

text \<open>
  The parts of \<open>stop_local\<close> and \<open>run_local\<close> that lie between their critical
  sections. \<open>stop_finish\<close> is what \<open>stop_local\<close> does with the handle it has taken,
  after the lock is released; \<open>launch_prepare\<close> is the making of the directory and the
  writing of the source and the assets, which gives the index of the directory or the
  exception that leaves \<open>run_local\<close>.
\<close>

definition stop_finish :: "world \<Rightarrow> nat option \<Rightarrow> state \<Rightarrow> stop_result \<times> state" where
  "stop_finish w proc s0 =
     (case proc of
        Some p \<Rightarrow>
          if running s0 p then
            (let s = s0\<lparr>signals := signals s0 @ [(p, SIGTERM)]\<rparr>;
                 s = (if exits_in_grace w then s
                      else s\<lparr>signals := signals s @ [(p, SIGKILL)]\<rparr>);
                 s = s\<lparr>procs := (procs s)[p := Exited]\<rparr>
             in (\<lparr>stopped = True, message = py ''Local process stopped.''\<rparr>, s))
          else (\<lparr>stopped = False, message = py ''No local process was running.''\<rparr>, s0)
      | None \<Rightarrow> (\<lparr>stopped = False, message = py ''No local process was running.''\<rparr>, s0))"

definition launch_prepare ::
  "world \<Rightarrow> pystr \<Rightarrow> (pystr \<times> bytes) list option \<Rightarrow> state \<Rightarrow> (py_exc + nat) \<times> state" where
  "launch_prepare w code uploaded_files s0 =
     (case mkdtemp_fault w of
        Some m \<Rightarrow> (Inl (OSError m), s0)
      | None \<Rightarrow>
          (let run_dir = length (dirs s0);
               s = s0\<lparr>dirs := dirs s0 @ [Some Map.empty]\<rparr>
           in (case write_entry w Map.empty (py ''kata.py'') (Text code) of
                 (d, Some e) \<Rightarrow> (Inl e, s\<lparr>dirs := (dirs s)[run_dir := Some d]\<rparr>)
               | (d, None) \<Rightarrow>
                   (case write_uploaded_files w d uploaded_files of
                      (d, Some e) \<Rightarrow> (Inl e, s\<lparr>dirs := (dirs s)[run_dir := Some d]\<rparr>)
                    | (d, None) \<Rightarrow> (Inr run_dir, s\<lparr>dirs := (dirs s)[run_dir := Some d]\<rparr>)))))"

text \<open>
  The threads: the one that serves the requests, and a \<open>_cleanup\<close> thread for each
  foreground process that was launched. The lock \<open>_active_local_lock\<close> is free or
  held by one of them.
\<close>

datatype thread = Main | Cleaner nat

text \<open>
  Where the serving thread stands. A call of \<open>stop_local\<close> is made by the router or
  is the first statement of \<open>run_local\<close>; \<open>after_stop\<close> says which. In
  \<open>stop_local\<close>: before the \<open>with\<close>, inside it before the two assignments, inside
  it after them with the handle taken, and after it. In \<open>run_local\<close>: before
  \<open>mkdtemp\<close>, before \<open>Popen\<close>, before the \<open>with\<close>, inside it before the
  assignment, inside it after the assignment, and before the thread is started.
\<close>

datatype after_stop = Return | Then_launch pystr "(pystr \<times> bytes) list option"

datatype main_pc =
  Idle
| Stop_acquire world after_stop
| Stop_take world after_stop
| Stop_release world after_stop "nat option"
| Stop_finish world after_stop "nat option"
| Launch_prepare world pystr "(pystr \<times> bytes) list option"
| Launch_spawn world nat
| Launch_acquire world nat nat
| Launch_register world nat nat
| Launch_release world nat nat
| Launch_thread world nat nat

text \<open>
  Where a \<open>_cleanup\<close> thread stands: in \<open>proc.wait()\<close>, before the \<open>with\<close>, inside
  it before the test, inside it after the test, and before the removal of the workspace.
\<close>

datatype cleaner_pc = Cl_wait | Cl_acquire | Cl_clear | Cl_release | Cl_remove

record sys =
  mem :: state
  lock :: "thread option"
  main :: main_pc
  cleaners :: "nat \<Rightarrow> cleaner_pc"

definition sys0 :: sys where
  "sys0 = \<lparr>mem = init, lock = None, main = Idle, cleaners = (\<lambda>p. Cl_wait)\<rparr>"

text \<open>
  One step of the serving thread. Entering a \<open>with _active_local_lock\<close> waits until
  the lock is free and takes it; leaving it frees the lock. The assignments to the slot
  are steps of their own and do not look at the lock.
\<close>

fun main_step :: "sys \<Rightarrow> sys option" where
  "main_step c =
     (case main c of
        Idle \<Rightarrow> None
      | Stop_acquire w k \<Rightarrow>
          if lock c = None then Some (c\<lparr>lock := Some Main, main := Stop_take w k\<rparr>) else None
      | Stop_take w k \<Rightarrow>
          Some (c\<lparr>mem := (mem c)\<lparr>active_local_process := None\<rparr>,
                 main := Stop_release w k (active_local_process (mem c))\<rparr>)
      | Stop_release w k proc \<Rightarrow> Some (c\<lparr>lock := None, main := Stop_finish w k proc\<rparr>)
      | Stop_finish w k proc \<Rightarrow>
          Some (c\<lparr>mem := snd (stop_finish w proc (mem c)),
                 main := (case k of
                            Return \<Rightarrow> Idle
                          | Then_launch code uploaded_files \<Rightarrow>
                              Launch_prepare w code uploaded_files)\<rparr>)
      | Launch_prepare w code uploaded_files \<Rightarrow>
          (case launch_prepare w code uploaded_files (mem c) of
             (Inl e, s) \<Rightarrow> Some (c\<lparr>mem := s, main := Idle\<rparr>)
           | (Inr run_dir, s) \<Rightarrow> Some (c\<lparr>mem := s, main := Launch_spawn w run_dir\<rparr>))
      | Launch_spawn w run_dir \<Rightarrow>
          (case Popen_fault w of
             Some m \<Rightarrow> Some (c\<lparr>mem := remove_workspace w run_dir (mem c), main := Idle\<rparr>)
           | None \<Rightarrow>
               Some (c\<lparr>mem := (mem c)\<lparr>procs := procs (mem c) @ [Running]\<rparr>,
                      main := Launch_acquire w (length (procs (mem c))) run_dir\<rparr>))
      | Launch_acquire w proc run_dir \<Rightarrow>
          if lock c = None then Some (c\<lparr>lock := Some Main, main := Launch_register w proc run_dir\<rparr>)
          else None
      | Launch_register w proc run_dir \<Rightarrow>
          Some (c\<lparr>mem := (mem c)\<lparr>active_local_process := Some proc\<rparr>,
                 main := Launch_release w proc run_dir\<rparr>)
      | Launch_release w proc run_dir \<Rightarrow>
          Some (c\<lparr>lock := None, main := Launch_thread w proc run_dir\<rparr>)
      | Launch_thread w proc run_dir \<Rightarrow>
          Some (c\<lparr>mem := (mem c)\<lparr>watchers := watchers (mem c) @ [(proc, run_dir)]\<rparr>,
                 main := Idle\<rparr>))"

text \<open>
  One step of the \<open>_cleanup\<close> thread of process \<open>proc\<close> with workspace \<open>run_dir\<close>:
  \<open>proc.wait()\<close> returns once the process has exited; the slot is cleared inside the
  \<open>with\<close> if it still holds this process; the workspace is removed and the thread ends.
\<close>

definition cleaner_step :: "world \<Rightarrow> nat \<Rightarrow> nat \<Rightarrow> sys \<Rightarrow> sys option" where
  "cleaner_step w proc run_dir c =
     (if (proc, run_dir) \<in> set (watchers (mem c)) then
        (case cleaners c proc of
           Cl_wait \<Rightarrow>
             if proc < length (procs (mem c)) \<and> \<not> running (mem c) proc
             then Some (c\<lparr>cleaners := (cleaners c)(proc := Cl_acquire)\<rparr>) else None
         | Cl_acquire \<Rightarrow>
             if lock c = None
             then Some (c\<lparr>lock := Some (Cleaner proc), cleaners := (cleaners c)(proc := Cl_clear)\<rparr>)
             else None
         | Cl_clear \<Rightarrow>
             Some (c\<lparr>mem := (if active_local_process (mem c) = Some proc
                            then (mem c)\<lparr>active_local_process := None\<rparr> else mem c),
                    cleaners := (cleaners c)(proc := Cl_release)\<rparr>)
         | Cl_release \<Rightarrow>
             Some (c\<lparr>lock := None, cleaners := (cleaners c)(proc := Cl_remove)\<rparr>)
         | Cl_remove \<Rightarrow>
             Some (c\<lparr>mem := remove_workspace w run_dir
                            ((mem c)\<lparr>watchers := remove1 (proc, run_dir) (watchers (mem c))\<rparr>),
                    cleaners := (cleaners c)(proc := Cl_wait)\<rparr>))
      else None)"

text \<open>
  What can happen next: a request arrives while the serving thread is idle (the router
  is an \<open>async\<close> handler that calls \<open>run_local\<close> and \<open>stop_local\<close> without awaiting
  inside them, so calls do not overlap); the serving thread or a \<open>_cleanup\<close> thread
  takes a step; a process exits by itself.
\<close>

datatype action =
  Call_stop world
| Call_launch world pystr "(pystr \<times> bytes) list option"
| Main_step
| Cleaner_step world nat nat
| Process_exit nat

fun actor :: "action \<Rightarrow> thread option" where
  "actor (Call_stop w) = Some Main"
| "actor (Call_launch w code uploaded_files) = Some Main"
| "actor Main_step = Some Main"
| "actor (Cleaner_step w proc run_dir) = Some (Cleaner proc)"
| "actor (Process_exit p) = None"

fun sstep :: "sys \<Rightarrow> action \<Rightarrow> sys option" where
  "sstep c (Call_stop w) =
     (if main c = Idle then Some (c\<lparr>main := Stop_acquire w Return\<rparr>) else None)"
| "sstep c (Call_launch w code uploaded_files) =
     (if main c = Idle then Some (c\<lparr>main := Stop_acquire w (Then_launch code uploaded_files)\<rparr>)
      else None)"
| "sstep c Main_step = main_step c"
| "sstep c (Cleaner_step w proc run_dir) = cleaner_step w proc run_dir c"
| "sstep c (Process_exit p) =
     (if running (mem c) p then Some (c\<lparr>mem := (mem c)\<lparr>procs := (procs (mem c))[p := Exited]\<rparr>\<rparr>)
      else None)"

fun sexec :: "sys \<Rightarrow> action list \<Rightarrow> sys option" where
  "sexec c [] = Some c"
| "sexec c (a # as) = (case sstep c a of None \<Rightarrow> None | Some c' \<Rightarrow> sexec c' as)"

text \<open>The serving thread running on, no other thread taking a step in between.\<close>

fun main_run :: "nat \<Rightarrow> sys \<Rightarrow> sys option" where
  "main_run 0 c = (if main c = Idle then Some c else None)"
| "main_run (Suc n) c =
     (if main c = Idle then Some c
      else (case main_step c of None \<Rightarrow> None | Some c' \<Rightarrow> main_run n c'))"

text \<open>
  The process the serving thread has in hand: the handle it took from the slot and has
  not yet dealt with, or the process it spawned and is about to register or has just
  registered.
\<close>

fun hand :: "main_pc \<Rightarrow> nat option" where
  "hand (Stop_release w k proc) = proc"
| "hand (Stop_finish w k proc) = proc"
| "hand (Launch_acquire w proc run_dir) = Some proc"
| "hand (Launch_register w proc run_dir) = Some proc"
| "hand (Launch_release w proc run_dir) = Some proc"
| "hand (Launch_thread w proc run_dir) = Some proc"
| "hand pc = None"

text \<open>Where a thread stands inside a \<open>with _active_local_lock\<close> block.\<close>

fun main_inside :: "main_pc \<Rightarrow> bool" where
  "main_inside (Stop_take w k) = True"
| "main_inside (Stop_release w k proc) = True"
| "main_inside (Launch_register w proc run_dir) = True"
| "main_inside (Launch_release w proc run_dir) = True"
| "main_inside pc = False"

fun cleaner_inside :: "cleaner_pc \<Rightarrow> bool" where
  "cleaner_inside Cl_clear = True"
| "cleaner_inside Cl_release = True"
| "cleaner_inside pc = False"

text \<open>
  What the slot holds while the serving thread is between taking the old handle and
  registering the new one, and after that.
\<close>

fun slot_at :: "main_pc \<Rightarrow> nat option \<Rightarrow> bool" where
  "slot_at Idle x = True"
| "slot_at (Stop_acquire w k) x = True"
| "slot_at (Stop_take w k) x = True"
| "slot_at (Launch_release w proc run_dir) x = (x = Some proc)"
| "slot_at (Launch_thread w proc run_dir) x = (x = Some proc)"
| "slot_at pc x = (x = None)"

text \<open>Whether a process spawned by the serving thread has not yet got its thread.\<close>

fun spawned :: "main_pc \<Rightarrow> nat option" where
  "spawned (Launch_acquire w proc run_dir) = Some proc"
| "spawned (Launch_register w proc run_dir) = Some proc"
| "spawned (Launch_release w proc run_dir) = Some proc"
| "spawned (Launch_thread w proc run_dir) = Some proc"
| "spawned pc = None"

text \<open>
  The discipline of the registry. The lock is held by exactly the thread that stands
  inside a \<open>with\<close> block. A foreground process that still runs is in the slot or in
  the hand of the serving thread. The slot is as \<open>slot_at\<close> says. A \<open>_cleanup\<close>
  thread belongs to a process that exists, and has left \<open>proc.wait()\<close> only when its
  process has exited; a process just spawned exists and has no thread yet.
\<close>

definition lock_ok :: "sys \<Rightarrow> bool" where
  "lock_ok c \<longleftrightarrow>
     (lock c = Some Main) = main_inside (main c) \<and>
     (\<forall>p. (lock c = Some (Cleaner p)) = cleaner_inside (cleaners c p))"

definition no_orphan :: "sys \<Rightarrow> bool" where
  "no_orphan c \<longleftrightarrow>
     (\<forall>p. running (mem c) p \<longrightarrow>
        active_local_process (mem c) = Some p \<or> hand (main c) = Some p)"

definition slot_ok :: "sys \<Rightarrow> bool" where
  "slot_ok c \<longleftrightarrow> slot_at (main c) (active_local_process (mem c))"

definition threads_ok :: "sys \<Rightarrow> bool" where
  "threads_ok c \<longleftrightarrow>
     (\<forall>x\<in>set (watchers (mem c)). fst x < length (procs (mem c))) \<and>
     (\<forall>p. cleaners c p \<noteq> Cl_wait \<longrightarrow>
        p \<in> fst ` set (watchers (mem c)) \<and> \<not> running (mem c) p) \<and>
     (\<forall>p. spawned (main c) = Some p \<longrightarrow>
        p < length (procs (mem c)) \<and> p \<notin> fst ` set (watchers (mem c)))"

definition disciplined :: "sys \<Rightarrow> bool" where
  "disciplined c \<longleftrightarrow> lock_ok c \<and> no_orphan c \<and> slot_ok c \<and> threads_ok c"

section \<open>The parse as the specification describes it\<close>

text \<open>
  The workspace the bounded child is started in, when setting it up raises nothing.
\<close>

definition workspace_of :: "world \<Rightarrow> pystr \<Rightarrow> (pystr \<times> bytes) list option \<Rightarrow> dir option" where
  "workspace_of w code uploaded_files =
     (case mkdtemp_fault w of
        Some m \<Rightarrow> None
      | None \<Rightarrow>
          (case write_entry w Map.empty (py ''kata.py'') (Text code) of
             (d, Some e) \<Rightarrow> None
           | (d, None) \<Rightarrow>
               (case write_uploaded_files w d uploaded_files of
                  (d, Some e) \<Rightarrow> None
                | (d, None) \<Rightarrow> Some d)))"

text \<open>
  Of a list of stdout lines: the lines with the prefix \<open>IMAGE:\<close>, the payload of the
  last of them, and what the other lines give to the log, in their order.
\<close>

definition image_lines :: "pystr list \<Rightarrow> pystr list" where
  "image_lines ls = filter (\<lambda>l. startswith l (py ''IMAGE:'')) ls"

definition last_image :: "pystr list \<Rightarrow> pystr option" where
  "last_image ls =
     (if image_lines ls = [] then None
      else Some (drop (length (py ''IMAGE:'')) (last (image_lines ls))))"

definition log_of :: "pystr \<Rightarrow> pystr" where
  "log_of l = (if startswith l (py ''INFO:'') then drop (length (py ''INFO:'')) l else l)"

definition stdout_logs :: "pystr list \<Rightarrow> pystr list" where
  "stdout_logs ls = map log_of (filter (\<lambda>l. \<not> startswith l (py ''IMAGE:'')) ls)"

text \<open>
  Of a list of stderr lines: the lines with the prefix \<open>EXEC_ERROR:\<close>, the translation
  of the last of them, and the other lines.
\<close>

definition exec_error_lines :: "pystr list \<Rightarrow> pystr list" where
  "exec_error_lines ls = filter (\<lambda>l. startswith l (py ''EXEC_ERROR:'')) ls"

definition last_error :: "pystr list \<Rightarrow> pystr" where
  "last_error ls =
     (if exec_error_lines ls = [] then []
      else make_friendly_error (drop (length (py ''EXEC_ERROR:'')) (last (exec_error_lines ls))))"

definition stderr_logs :: "pystr list \<Rightarrow> pystr list" where
  "stderr_logs ls = filter (\<lambda>l. \<not> startswith l (py ''EXEC_ERROR:'')) ls"

section \<open>The assets as the specification describes them\<close>

text \<open>
  The entries the assets are to become: each under the base name of its display name,
  those with an empty base name left out, in the order of the upload.
\<close>

definition wanted :: "(pystr \<times> bytes) list \<Rightarrow> (pystr \<times> content) list" where
  "wanted fs =
     map (\<lambda>(f, c). (Path_name f, Bytes c)) (filter (\<lambda>(f, c). Path_name f \<noteq> []) fs)"

definition put :: "dir \<Rightarrow> pystr \<times> content \<Rightarrow> dir" where
  "put d e = d(fst e \<mapsto> snd e)"

definition assets :: "(pystr \<times> bytes) list option \<Rightarrow> (pystr \<times> bytes) list" where
  "assets uploaded_files = (case uploaded_files of None \<Rightarrow> [] | Some fs \<Rightarrow> fs)"

section \<open>The translator as the specification describes it\<close>

text \<open>
  The specification speaks of a fixed, ordered list of failure categories, each with its
  substrings and its explanation around the raw message, the first category that matches
  being the only one applied. \<open>translate\<close> is that description; the texts of the
  explanations are those of the code.
\<close>

datatype category = BlockedImport | SyntaxError | UndefinedName | TypeMismatch | AttributeError

fun patterns :: "category \<Rightarrow> pystr list" where
  "patterns BlockedImport = [py ''ImportError'', py ''ModuleNotFoundError'']"
| "patterns SyntaxError = [py ''SyntaxError'']"
| "patterns UndefinedName = [py ''NameError'']"
| "patterns TypeMismatch = [py ''TypeError'']"
| "patterns AttributeError = [py ''AttributeError'']"

fun explanation :: "category \<Rightarrow> pystr \<times> pystr" where
  "explanation BlockedImport =
     ([0x11F, 0x178, 0x161, 0xAB] @ py '' Import blocked: '',
      [0x0A] @ py ''Only `import cv2` and `import numpy as np` are allowed.'')"
| "explanation SyntaxError =
     ([0xE2, 0x153, 0xEF, 0xB8] @ py '' Syntax error in your code: '', [])"
| "explanation UndefinedName =
     ([0xE2, 0x201C] @ py '' Name not found: '', [0x0A] @ py ''Did you define this variable?'')"
| "explanation TypeMismatch = ([0x11F, 0x178, 0x201D, 0xA7] @ py '' Type error: '', [])"
| "explanation AttributeError =
     ([0x11F, 0x178, 0x201D] @ py '' Attribute error: '',
      [0x0A] @ py ''Check the OpenCV function name.'')"

definition categories :: "category list" where
  "categories = [BlockedImport, SyntaxError, UndefinedName, TypeMismatch, AttributeError]"

definition matches :: "pystr \<Rightarrow> category \<Rightarrow> bool" where
  "matches raw c = list_ex (contains raw) (patterns c)"

definition translate :: "pystr \<Rightarrow> pystr" where
  "translate raw =
     (case find (matches raw) categories of
        Some c \<Rightarrow> fst (explanation c) @ raw @ snd (explanation c)
      | None \<Rightarrow> [0xE2, 0x152] @ py '' Error: '' @ raw)"

section \<open>Facts about strings\<close>

lemma startswith_append: "startswith (p @ ys) p"
  by (simp add: startswith_def)

lemma startswith_contains: "startswith s p \<Longrightarrow> contains s p"
  by (cases s) (auto simp: startswith_def)

lemma contains_append_left: "contains ys p \<Longrightarrow> contains (xs @ ys) p"
  by (induction xs) auto

lemma contains_middle: "contains (xs @ p @ ys) p"
  by (intro contains_append_left startswith_contains startswith_append)

lemma contains_end: "contains (xs @ p) p"
  using contains_middle [of xs p "[]"] by simp

section \<open>The error translator: first match wins\<close>

lemma make_friendly_error_translate: "make_friendly_error raw = translate raw"
  by (simp add: make_friendly_error_def translate_def categories_def matches_def)

lemma translate_echo: "contains (translate raw) raw"
proof (cases "find (matches raw) categories")
  case None
  then show ?thesis
    using contains_end [of "[0xE2, 0x152] @ py '' Error: ''" raw] by (simp add: translate_def)
next
  case (Some c)
  then show ?thesis
    using contains_middle [of "fst (explanation c)" raw "snd (explanation c)"]
    by (simp add: translate_def)
qed

lemma translate_import:
  assumes "contains raw (py ''ImportError'')"
  shows "translate raw = fst (explanation BlockedImport) @ raw @ snd (explanation BlockedImport)"
  using assms by (simp add: translate_def categories_def matches_def)

text \<open>
  C5. The translator is a function of the raw message alone. It applies the first
  category of the fixed order (blocked import, syntax error, undefined name, type
  mismatch, attribute error) whose substring occurs in the message, and only that one; a
  message of no category gets the generic prefix; the raw message occurs in every output;
  and a message containing \<open>ImportError\<close> is answered with the sentence that only
  \<open>import cv2\<close> and \<open>import numpy as np\<close> are allowed.
\<close>

theorem make_friendly_error_first_match:
  "make_friendly_error raw = translate raw \<and>
   contains (make_friendly_error raw) raw \<and>
   (contains raw (py ''ImportError'') \<longrightarrow>
      contains (make_friendly_error raw)
        (py ''Only `import cv2` and `import numpy as np` are allowed.''))"
proof (intro conjI impI)
  show "make_friendly_error raw = translate raw"
    by (rule make_friendly_error_translate)
  show "contains (make_friendly_error raw) raw"
    by (simp only: make_friendly_error_translate translate_echo)
next
  assume "contains raw (py ''ImportError'')"
  then have "make_friendly_error raw =
      (fst (explanation BlockedImport) @ raw @ [0x0A]) @
      py ''Only `import cv2` and `import numpy as np` are allowed.''"
    by (simp add: make_friendly_error_translate translate_import)
  then show "contains (make_friendly_error raw)
      (py ''Only `import cv2` and `import numpy as np` are allowed.'')"
    by (simp only: contains_end)
qed

theorem make_friendly_error_first_match_witness:
  "contains (py ''ImportError: cv2'') (py ''ImportError'') \<and>
   make_friendly_error (py ''ImportError: cv2'') = translate (py ''ImportError: cv2'') \<and>
   contains (make_friendly_error (py ''ImportError: cv2''))
     (py ''Only `import cv2` and `import numpy as np` are allowed.'')"
proof -
  have h: "contains (py ''ImportError: cv2'') (py ''ImportError'')"
    by code_simp
  show ?thesis
    using h make_friendly_error_first_match [of "py ''ImportError: cv2''"] by blast
qed

section \<open>The parse of the two streams\<close>


lemma splitlines_Nil [simp]: "splitlines [] = []"
  by (simp add: splitlines.simps)

lemma last_image_Cons:
  "last_image (l # ls) =
     (case last_image ls of
        Some x \<Rightarrow> Some x
      | None \<Rightarrow> if startswith l (py ''IMAGE:'') then Some (drop (length (py ''IMAGE:'')) l) else None)"
  by (simp add: last_image_def image_lines_def)

lemma parse_stdout_eq:
  "parse_stdout ls (img, acc) =
     ((case last_image ls of None \<Rightarrow> img | Some x \<Rightarrow> Some x), acc @ stdout_logs ls)"
proof (induction ls arbitrary: img acc)
  case Nil
  show ?case by (simp add: last_image_def image_lines_def stdout_logs_def)
next
  case (Cons l ls)
  show ?case
    by (simp add: Cons.IH last_image_Cons stdout_logs_def log_of_def split: option.splits)
qed

lemma last_error_Cons:
  "last_error (l # ls) =
     (if exec_error_lines ls \<noteq> [] then last_error ls
      else if startswith l (py ''EXEC_ERROR:'')
        then make_friendly_error (drop (length (py ''EXEC_ERROR:'')) l) else [])"
  by (simp add: last_error_def exec_error_lines_def)

lemma parse_stderr_eq:
  "parse_stderr ls (e, acc) =
     ((if exec_error_lines ls = [] then e else last_error ls), acc @ stderr_logs ls)"
proof (induction ls arbitrary: e acc)
  case Nil
  show ?case by (simp add: exec_error_lines_def stderr_logs_def)
next
  case (Cons l ls)
  show ?case
    by (simp add: Cons.IH last_error_Cons stderr_logs_def) (simp add: exec_error_lines_def)
qed

lemma parse_output_eq:
  "parse_output out err =
     \<lparr>image_b64 = last_image (splitlines (strip out)),
      logs = join [0x0A] (stdout_logs (splitlines (strip out)) @ stderr_logs (splitlines (strip err))),
      error = last_error (splitlines (strip err))\<rparr>"
proof (cases "strip err = []")
  case True
  then show ?thesis
    by (simp add: parse_output_def Let_def parse_stdout_eq stderr_logs_def last_error_def
        exec_error_lines_def split: option.splits)
next
  case False
  then show ?thesis
    by (simp add: parse_output_def Let_def parse_stdout_eq parse_stderr_eq last_error_def
        split: option.splits)
qed

lemma run_code_try_started:
  assumes "workspace_of w code uploaded_files = Some d"
  shows "run_code_try w code uploaded_files =
     (case remove_fault w of
        Some m \<Rightarrow> Inl (OSError m)
      | None \<Rightarrow>
          (case subprocess_run w d of
             RunRaises e \<Rightarrow> Inl e
           | CompletedProcess out err \<Rightarrow> Inr (parse_output out err)))"
  using assms
  by (auto simp: workspace_of_def run_code_try_def run_code_with_def
      split: option.splits prod.splits)

lemma write_entry_exc: "write_entry w d n c = (d', Some e) \<Longrightarrow> \<exists>m. e = OSError m"
  by (auto simp: write_entry_def split: if_splits option.splits)

lemma write_each_exc: "write_each w d fs = (d', Some e) \<Longrightarrow> \<exists>m. e = OSError m"
proof (induction fs arbitrary: d)
  case Nil
  then show ?case by simp
next
  case (Cons f fs)
  obtain n c where f: "f = (n, c)" by (cases f)
  from Cons.prems Cons.IH show ?case
    by (auto simp: f Let_def split: if_splits prod.splits option.splits dest: write_entry_exc)
qed

lemma write_uploaded_files_exc:
  "write_uploaded_files w d fs = (d', Some e) \<Longrightarrow> \<exists>m. e = OSError m"
  by (auto simp: write_uploaded_files_def split: option.splits if_splits dest: write_each_exc)

lemma run_code_try_not_started:
  assumes "workspace_of w code uploaded_files = None"
  shows "\<exists>m. run_code_try w code uploaded_files = Inl (OSError m)"
  using assms
  by (auto simp: workspace_of_def run_code_try_def run_code_with_def
      split: option.splits prod.splits
      dest: write_entry_exc write_uploaded_files_exc)


lemma splitlines_Cons:
  "splitlines (c # cs) =
     (if is_linebreak c then
        [] # (case cs of [] \<Rightarrow> [] | d # r \<Rightarrow> if c = 0x0D \<and> d = 0x0A then splitlines r else splitlines cs)
      else (case splitlines cs of [] \<Rightarrow> [[c]] | l # ls \<Rightarrow> (c # l) # ls))"
proof (cases "is_linebreak c")
  case True
  then show ?thesis
    by (subst splitlines.simps) (simp split: list.splits)
next
  case False
  show ?thesis
  proof (cases cs)
    case Nil
    with False show ?thesis by (subst splitlines.simps) simp
  next
    case (Cons d r)
    with False show ?thesis
      by (subst splitlines.simps, subst (2) splitlines.simps) simp
  qed
qed

lemmas eval_defs =
  run_code_def run_code_try_def run_code_with_def workspace_of_def calm_def write_entry_def
  write_uploaded_files_def parse_output_def strip_def is_space_def is_linebreak_def
  splitlines_Cons startswith_def make_friendly_error_def py_def Let_def

lemma timeout_message_nonempty: "timeout_message \<noteq> []"
  by (simp add: timeout_message_def)

lemma make_friendly_error_nonempty: "make_friendly_error raw \<noteq> []"
  by (simp add: make_friendly_error_def)

lemma last_error_nonempty: "last_error ls \<noteq> [] \<longleftrightarrow> exec_error_lines ls \<noteq> []"
  by (simp add: last_error_def make_friendly_error_nonempty)

lemma run_code_completed:
  assumes "workspace_of w code uploaded_files = Some d"
    and "subprocess_run w d = CompletedProcess out err"
    and "remove_fault w = None"
  shows "run_code w code uploaded_files = Inr (parse_output out err)"
  using assms by (simp add: run_code_def run_code_try_started)

lemma run_code_raised:
  assumes "run_code_try w code uploaded_files = Inl e"
  shows "\<exists>r. run_code w code uploaded_files = Inr r \<and> image_b64 r = None \<and> logs r = [] \<and>
    error r = (case e of TimeoutExpired m \<Rightarrow> timeout_message
               | _ \<Rightarrow> py ''Execution failed: '' @ str_exc e)"
  using assms by (cases e) (simp_all add: run_code_def)

section \<open>The bounded runner returns a result on every path\<close>

text \<open>
  C1. Whatever the environment does and whatever the source and the assets are,
  \<open>run_code\<close> returns a result and raises nothing; when its \<open>try\<close> body raises (the
  directory cannot be made or cannot be removed, a file cannot be written, the child
  cannot be started, the deadline passes), the result has no image, no logs and a
  non-empty error, which is the timeout message or \<open>Execution failed:\<close> followed by
  the text of the exception.
\<close>

theorem run_code_never_raises:
  "\<exists>r. run_code w code uploaded_files = Inr r \<and>
     (\<forall>e. run_code_try w code uploaded_files = Inl e \<longrightarrow>
        image_b64 r = None \<and> logs r = [] \<and>
        (error r = timeout_message \<or> error r = py ''Execution failed: '' @ str_exc e) \<and>
        error r \<noteq> [])"
proof (cases "run_code_try w code uploaded_files")
  case (Inr r)
  then show ?thesis by (simp add: run_code_def)
next
  case (Inl e)
  then show ?thesis
    by (cases e) (simp_all add: run_code_def timeout_message_nonempty py_def)
qed

theorem run_code_never_raises_witness:
  "run_code_try (calm (RunRaises (OSError (py ''[Errno 8] Exec format error'')))) (py ''x'') None =
     Inl (OSError (py ''[Errno 8] Exec format error'')) \<and>
   (\<exists>r. run_code (calm (RunRaises (OSError (py ''[Errno 8] Exec format error'')))) (py ''x'') None
          = Inr r \<and>
      image_b64 r = None \<and> error r \<noteq> [])"
proof -
  let ?w = "calm (RunRaises (OSError (py ''[Errno 8] Exec format error'')))"
  have h: "run_code_try ?w (py ''x'') None = Inl (OSError (py ''[Errno 8] Exec format error''))"
    by (simp add: eval_defs)
  show ?thesis
    using h run_code_never_raises [of ?w "py ''x''" None] by auto
qed

section \<open>Image and error of one result\<close>

text \<open>
  A child that prints an image line and then reports an execution error gets both
  fields filled.
\<close>

theorem run_code_image_and_error_counterexample:
  "run_code (calm (CompletedProcess (py ''IMAGE:QUJD'') (py ''EXEC_ERROR:boom''))) (py ''x'') None =
     Inr \<lparr>image_b64 = Some (py ''QUJD''), logs = [],
          error = [0xE2, 0x152] @ py '' Error: boom''\<rparr> \<and>
   error \<lparr>image_b64 = Some (py ''QUJD''), logs = [],
          error = [0xE2, 0x152] @ py '' Error: boom''\<rparr> \<noteq> [] \<and>
   image_b64 \<lparr>image_b64 = Some (py ''QUJD''), logs = [],
          error = [0xE2, 0x152] @ py '' Error: boom''\<rparr> \<noteq> None"
  by (simp add: eval_defs)

text \<open>
  C3, amended. A result of \<open>run_code\<close> has a non-empty error together with an image
  exactly when the child exited, the scratch directory was removed without error, the
  stdout (stripped) had a line prefixed \<open>IMAGE:\<close> and the stderr (stripped) had a line
  prefixed \<open>EXEC_ERROR:\<close>. In every other case a non-empty error comes with no image,
  and an image with an empty error.
\<close>

theorem run_code_field_discipline:
  assumes "run_code w code uploaded_files = Inr r"
  shows "(error r \<noteq> [] \<and> image_b64 r \<noteq> None) \<longleftrightarrow>
    (\<exists>d out err. workspace_of w code uploaded_files = Some d \<and>
       subprocess_run w d = CompletedProcess out err \<and>
       remove_fault w = None \<and>
       image_lines (splitlines (strip out)) \<noteq> [] \<and>
       exec_error_lines (splitlines (strip err)) \<noteq> [])"
proof -
  have raised: "image_b64 r = None" if "run_code_try w code uploaded_files = Inl e" for e
    using run_code_raised [OF that] assms by auto
  show ?thesis
  proof (cases "workspace_of w code uploaded_files")
    case None
    then obtain m where "run_code_try w code uploaded_files = Inl (OSError m)"
      using run_code_try_not_started by blast
    from raised [OF this] None show ?thesis by simp
  next
    case (Some d)
    show ?thesis
    proof (cases "remove_fault w")
      case (Some m)
      with \<open>workspace_of w code uploaded_files = Some d\<close>
      have "run_code_try w code uploaded_files = Inl (OSError m)"
        by (simp add: run_code_try_started)
      from raised [OF this] Some show ?thesis by simp
    next
      case None
      show ?thesis
      proof (cases "subprocess_run w d")
        case (RunRaises e)
        with Some None have "run_code_try w code uploaded_files = Inl e"
          by (simp add: run_code_try_started)
        from raised [OF this] Some RunRaises show ?thesis by simp
      next
        case (CompletedProcess out err)
        with Some None assms have "r = parse_output out err"
          by (simp add: run_code_completed)
        then have "error r = last_error (splitlines (strip err))"
          and "image_b64 r = last_image (splitlines (strip out))"
          by (simp_all add: parse_output_eq)
        with Some None CompletedProcess show ?thesis
          by (auto simp: last_error_nonempty last_image_def)
      qed
    qed
  qed
qed

theorem run_code_field_discipline_witness:
  "run_code (calm (CompletedProcess (py ''IMAGE:QUJD'') (py ''EXEC_ERROR:boom''))) (py ''x'') None =
     Inr \<lparr>image_b64 = Some (py ''QUJD''), logs = [], error = [0xE2, 0x152] @ py '' Error: boom''\<rparr> \<and>
   (\<exists>d out err.
      workspace_of (calm (CompletedProcess (py ''IMAGE:QUJD'') (py ''EXEC_ERROR:boom''))) (py ''x'') None = Some d \<and>
      subprocess_run (calm (CompletedProcess (py ''IMAGE:QUJD'') (py ''EXEC_ERROR:boom''))) d = CompletedProcess out err \<and>
      remove_fault (calm (CompletedProcess (py ''IMAGE:QUJD'') (py ''EXEC_ERROR:boom''))) = None \<and>
      image_lines (splitlines (strip out)) \<noteq> [] \<and>
      exec_error_lines (splitlines (strip err)) \<noteq> [])"
proof -
  let ?w = "calm (CompletedProcess (py ''IMAGE:QUJD'') (py ''EXEC_ERROR:boom''))"
  let ?r = "\<lparr>image_b64 = Some (py ''QUJD''), logs = [], error = [0xE2, 0x152] @ py '' Error: boom''\<rparr>"
  have h: "run_code ?w (py ''x'') None = Inr ?r"
    by (simp add: eval_defs)
  show ?thesis
    using h run_code_field_discipline [OF h] by simp
qed

section \<open>The parse of stdout\<close>

text \<open>
  The streams are stripped before they are cut into lines: the first line loses its
  leading whitespace and the last its trailing whitespace, so that neither the payload
  nor the log is the text of the raw lines.
\<close>

theorem run_code_stdout_verbatim_counterexample:
  "run_code (calm (CompletedProcess (py '' first'' @ [0x0A] @ py ''IMAGE:QUJD '') [])) (py ''x'') None =
     Inr \<lparr>image_b64 = Some (py ''QUJD''), logs = py ''first'', error = []\<rparr> \<and>
   last_image (splitlines (py '' first'' @ [0x0A] @ py ''IMAGE:QUJD '')) = Some (py ''QUJD '') \<and>
   Some (py ''QUJD '') \<noteq> Some (py ''QUJD'') \<and>
   join [0x0A] (stdout_logs (splitlines (py '' first'' @ [0x0A] @ py ''IMAGE:QUJD ''))) = py '' first'' \<and>
   py '' first'' \<noteq> py ''first''"
  by (simp add: eval_defs last_image_def image_lines_def stdout_logs_def log_of_def)

text \<open>
  C4, amended. When the bounded run exits normally, that is, the workspace is set up,
  the child exits and the \<open>with\<close> block is left without an exception, the parse is
  line by line over the stdout with its surrounding whitespace stripped: the image is
  the rest of the last line prefixed \<open>IMAGE:\<close> (none if there is no such line), and
  the log text is, joined by newlines and in the order of the lines, the rest of each
  line prefixed \<open>INFO:\<close> and each other line as it is, followed by the stderr lines
  that are not prefixed \<open>EXEC_ERROR:\<close>.
\<close>

theorem run_code_parses_stdout:
  assumes "workspace_of w code uploaded_files = Some d"
    and "subprocess_run w d = CompletedProcess out err"
    and "remove_fault w = None"
  shows "\<exists>r. run_code w code uploaded_files = Inr r \<and>
    image_b64 r = last_image (splitlines (strip out)) \<and>
    logs r = join [0x0A] (stdout_logs (splitlines (strip out)) @ stderr_logs (splitlines (strip err)))"
  using assms by (simp add: run_code_completed parse_output_eq)

theorem run_code_parses_stdout_witness:
  "workspace_of (calm (CompletedProcess (py ''IMAGE:one'' @ [0x0A] @ py ''INFO:shape'' @ [0x0A] @ py ''plain'' @ [0x0A] @ py ''IMAGE:two'') [])) (py ''x'') None
     = Some [py ''kata.py'' \<mapsto> Text (py ''x'')] \<and>
   remove_fault (calm (CompletedProcess (py ''IMAGE:one'' @ [0x0A] @ py ''INFO:shape'' @ [0x0A] @ py ''plain'' @ [0x0A] @ py ''IMAGE:two'') [])) = None \<and>
   (\<exists>r. run_code (calm (CompletedProcess (py ''IMAGE:one'' @ [0x0A] @ py ''INFO:shape'' @ [0x0A] @ py ''plain'' @ [0x0A] @ py ''IMAGE:two'') [])) (py ''x'') None = Inr r \<and>
      image_b64 r = Some (py ''two'') \<and> logs r = py ''shape'' @ [0x0A] @ py ''plain'')"
proof -
  let ?out = "py ''IMAGE:one'' @ [0x0A] @ py ''INFO:shape'' @ [0x0A] @ py ''plain'' @ [0x0A] @ py ''IMAGE:two''"
  let ?w = "calm (CompletedProcess ?out [])"
  have h1: "workspace_of ?w (py ''x'') None = Some [py ''kata.py'' \<mapsto> Text (py ''x'')]"
    by (simp add: eval_defs)
  have h2: "subprocess_run ?w [py ''kata.py'' \<mapsto> Text (py ''x'')] = CompletedProcess ?out []"
    by (simp add: calm_def)
  have h3: "remove_fault ?w = None"
    by (simp add: calm_def)
  have e1: "last_image (splitlines (strip ?out)) = Some (py ''two'')"
    by (simp add: eval_defs last_image_def image_lines_def)
  have e2: "join [0x0A] (stdout_logs (splitlines (strip ?out)) @ stderr_logs (splitlines (strip []))) = py ''shape'' @ [0x0A] @ py ''plain''"
    by (simp add: eval_defs stdout_logs_def stderr_logs_def log_of_def)
  show ?thesis
    using h1 h3 run_code_parses_stdout [OF h1 h2 h3] e1 e2 by simp
qed

section \<open>The deadline\<close>

lemma timeout_message_text:
  "timeout_message = [0xE2, 0xB1] @ py '' Execution timed out after 10 seconds. Check for infinite loops.''"
  by (simp add: timeout_message_def TIMEOUT_SECONDS_def str_nat.simps py_def)

lemma make_friendly_error_not_timeout: "make_friendly_error raw \<noteq> timeout_message"
  by (simp add: make_friendly_error_def timeout_message_text py_def)

lemma last_error_not_timeout: "last_error ls \<noteq> timeout_message"
  by (simp add: last_error_def make_friendly_error_not_timeout) (simp add: timeout_message_text)

lemma execution_failed_not_timeout: "py ''Execution failed: '' @ m \<noteq> timeout_message"
  by (simp add: timeout_message_text py_def)

text \<open>
  The scratch directory is removed while the \<open>TimeoutExpired\<close> is on its way to the
  handler; when the removal fails, its \<open>OSError\<close> reaches the handlers instead, and
  the result is the generic failure, not the timeout message.
\<close>

theorem run_code_timeout_counterexample:
  "workspace_of (calm (RunRaises (TimeoutExpired (py ''timed out after 10 seconds'')))
       \<lparr>remove_fault := Some (py ''[Errno 39] Directory not empty'')\<rparr>)
       (py ''while True: pass'') None
     = Some [py ''kata.py'' \<mapsto> Text (py ''while True: pass'')] \<and>
   subprocess_run (calm (RunRaises (TimeoutExpired (py ''timed out after 10 seconds'')))
       \<lparr>remove_fault := Some (py ''[Errno 39] Directory not empty'')\<rparr>)
       [py ''kata.py'' \<mapsto> Text (py ''while True: pass'')]
     = RunRaises (TimeoutExpired (py ''timed out after 10 seconds'')) \<and>
   run_code (calm (RunRaises (TimeoutExpired (py ''timed out after 10 seconds'')))
       \<lparr>remove_fault := Some (py ''[Errno 39] Directory not empty'')\<rparr>)
       (py ''while True: pass'') None =
     Inr \<lparr>image_b64 = None, logs = [],
          error = py ''Execution failed: [Errno 39] Directory not empty''\<rparr> \<and>
   py ''Execution failed: [Errno 39] Directory not empty'' \<noteq> timeout_message"
  by (simp add: eval_defs timeout_message_text)

text \<open>
  C6, amended. When the workspace is set up, the child passes the deadline of 10
  seconds, so that \<open>subprocess.run\<close> raises \<open>TimeoutExpired\<close>, and the scratch
  directory is then removed without error, the result has no image, empty logs and
  exactly the fixed message, which names the budget and suggests checking for infinite
  loops; and no other run of \<open>run_code\<close> returns that message as its error.
\<close>

theorem run_code_timeout:
  "(workspace_of w code uploaded_files = Some d \<and>
    subprocess_run w d = RunRaises (TimeoutExpired m) \<and> remove_fault w = None \<longrightarrow>
      run_code w code uploaded_files =
        Inr \<lparr>image_b64 = None, logs = [],
             error = [0xE2, 0xB1] @
               py '' Execution timed out after 10 seconds. Check for infinite loops.''\<rparr>) \<and>
   (\<forall>r. run_code w code uploaded_files = Inr r \<and> error r = timeout_message \<longrightarrow>
      (\<exists>d m. workspace_of w code uploaded_files = Some d \<and>
         subprocess_run w d = RunRaises (TimeoutExpired m) \<and> remove_fault w = None))"
proof (intro conjI impI allI)
  assume "workspace_of w code uploaded_files = Some d \<and>
    subprocess_run w d = RunRaises (TimeoutExpired m) \<and> remove_fault w = None"
  then have "run_code_try w code uploaded_files = Inl (TimeoutExpired m)"
    by (simp add: run_code_try_started)
  then show "run_code w code uploaded_files =
      Inr \<lparr>image_b64 = None, logs = [],
           error = [0xE2, 0xB1] @
             py '' Execution timed out after 10 seconds. Check for infinite loops.''\<rparr>"
    by (simp add: run_code_def timeout_message_text)
next
  fix r
  assume a: "run_code w code uploaded_files = Inr r \<and> error r = timeout_message"
  have failed: False if "run_code_try w code uploaded_files = Inl (OSError x)" for x
  proof -
    from that a have "py ''Execution failed: '' @ x = timeout_message"
      by (auto simp: run_code_def)
    then show False by (simp add: execution_failed_not_timeout)
  qed
  show "\<exists>d m. workspace_of w code uploaded_files = Some d \<and>
      subprocess_run w d = RunRaises (TimeoutExpired m) \<and> remove_fault w = None"
  proof (cases "workspace_of w code uploaded_files")
    case None
    then obtain x where "run_code_try w code uploaded_files = Inl (OSError x)"
      using run_code_try_not_started by blast
    from failed [OF this] show ?thesis ..
  next
    case (Some d)
    show ?thesis
    proof (cases "remove_fault w")
      case (Some x)
      with \<open>workspace_of w code uploaded_files = Some d\<close>
      have "run_code_try w code uploaded_files = Inl (OSError x)"
        by (simp add: run_code_try_started)
      from failed [OF this] show ?thesis ..
    next
      case None
      show ?thesis
      proof (cases "subprocess_run w d")
        case (CompletedProcess out err)
        with Some None a have "error (parse_output out err) = timeout_message"
          by (auto simp: run_code_completed)
        then show ?thesis by (simp add: parse_output_eq last_error_not_timeout)
      next
        case (RunRaises e)
        with Some None have t: "run_code_try w code uploaded_files = Inl e"
          by (simp add: run_code_try_started)
        show ?thesis
        proof (cases e)
          case (TimeoutExpired m)
          with Some None RunRaises show ?thesis by simp
        next
          case (OSError x)
          with t failed show ?thesis by blast
        next
          case (OtherException x)
          with t a have "py ''Execution failed: '' @ x = timeout_message"
            by (auto simp: run_code_def)
          then show ?thesis by (simp add: execution_failed_not_timeout)
        qed
      qed
    qed
  qed
qed

theorem run_code_timeout_witness:
  "workspace_of (calm (RunRaises (TimeoutExpired (py ''timed out after 10 seconds'')))) (py ''while True: pass'') None
     = Some [py ''kata.py'' \<mapsto> Text (py ''while True: pass'')] \<and>
   subprocess_run (calm (RunRaises (TimeoutExpired (py ''timed out after 10 seconds''))))
     [py ''kata.py'' \<mapsto> Text (py ''while True: pass'')]
     = RunRaises (TimeoutExpired (py ''timed out after 10 seconds'')) \<and>
   remove_fault (calm (RunRaises (TimeoutExpired (py ''timed out after 10 seconds'')))) = None \<and>
   run_code (calm (RunRaises (TimeoutExpired (py ''timed out after 10 seconds'')))) (py ''while True: pass'') None =
     Inr \<lparr>image_b64 = None, logs = [],
          error = [0xE2, 0xB1] @
            py '' Execution timed out after 10 seconds. Check for infinite loops.''\<rparr>"
proof -
  let ?w = "calm (RunRaises (TimeoutExpired (py ''timed out after 10 seconds'')))"
  let ?d = "[py ''kata.py'' \<mapsto> Text (py ''while True: pass'')]"
  have h1: "workspace_of ?w (py ''while True: pass'') None = Some ?d"
    by (simp add: eval_defs)
  have h2: "subprocess_run ?w ?d = RunRaises (TimeoutExpired (py ''timed out after 10 seconds''))"
    by (simp add: calm_def)
  have h3: "remove_fault ?w = None"
    by (simp add: calm_def)
  have h: "workspace_of ?w (py ''while True: pass'') None = Some ?d \<and>
      subprocess_run ?w ?d = RunRaises (TimeoutExpired (py ''timed out after 10 seconds'')) \<and>
      remove_fault ?w = None"
    using h1 h2 h3 by (intro conjI)
  note t = run_code_timeout [of ?w "py ''while True: pass''" None ?d
      "py ''timed out after 10 seconds''", THEN conjunct1, rule_format, OF h]
  show ?thesis
    using h1 h2 h3 t by (intro conjI)
qed

section \<open>Several execution errors on stderr\<close>

text \<open>
  C10. When the bounded run exits normally, that is, the workspace is set up, the child
  exits and the \<open>with\<close> block is left without an exception, and the stderr as
  \<open>run_code\<close> holds it (stripped of surrounding whitespace) has two or more lines
  prefixed \<open>EXEC_ERROR:\<close>, the error of the result is the translation of the last of
  them alone; the log text holds the stderr lines without that prefix, after those of
  stdout, and none of the prefixed lines.
\<close>

theorem run_code_last_exec_error:
  assumes "workspace_of w code uploaded_files = Some d"
    and "subprocess_run w d = CompletedProcess out err"
    and "remove_fault w = None"
    and "2 \<le> length (exec_error_lines (splitlines (strip err)))"
  shows "\<exists>r. run_code w code uploaded_files = Inr r \<and>
    error r = make_friendly_error
      (drop (length (py ''EXEC_ERROR:'')) (last (exec_error_lines (splitlines (strip err))))) \<and>
    logs r = join [0x0A] (stdout_logs (splitlines (strip out)) @ stderr_logs (splitlines (strip err))) \<and>
    set (stderr_logs (splitlines (strip err))) \<inter> set (exec_error_lines (splitlines (strip err))) = {} \<and>
    set (stderr_logs (splitlines (strip err))) \<union> set (exec_error_lines (splitlines (strip err)))
      = set (splitlines (strip err))"
proof -
  from assms(4) have "exec_error_lines (splitlines (strip err)) \<noteq> []" by auto
  then have "last_error (splitlines (strip err)) = make_friendly_error
      (drop (length (py ''EXEC_ERROR:'')) (last (exec_error_lines (splitlines (strip err)))))"
    by (simp add: last_error_def)
  moreover have "set (stderr_logs ls) \<inter> set (exec_error_lines ls) = {}" for ls
    by (auto simp: stderr_logs_def exec_error_lines_def)
  moreover have "set (stderr_logs ls) \<union> set (exec_error_lines ls) = set ls" for ls
    by (auto simp: stderr_logs_def exec_error_lines_def)
  ultimately show ?thesis
    using assms(1,2,3) by (simp add: run_code_completed parse_output_eq)
qed

theorem run_code_last_exec_error_witness:
  "2 \<le> length (exec_error_lines (splitlines (strip
      (py ''EXEC_ERROR:NameError: a'' @ [0x0A] @ py ''warning'' @ [0x0A] @ py ''EXEC_ERROR:TypeError: b'')))) \<and>
   remove_fault (calm (CompletedProcess (py ''out'')
        (py ''EXEC_ERROR:NameError: a'' @ [0x0A] @ py ''warning'' @ [0x0A] @ py ''EXEC_ERROR:TypeError: b''))) = None \<and>
   (\<exists>r. run_code (calm (CompletedProcess (py ''out'')
        (py ''EXEC_ERROR:NameError: a'' @ [0x0A] @ py ''warning'' @ [0x0A] @ py ''EXEC_ERROR:TypeError: b'')))
        (py ''x'') None = Inr r \<and>
      error r = [0x11F, 0x178, 0x201D, 0xA7] @ py '' Type error: TypeError: b'' \<and>
      logs r = py ''out'' @ [0x0A] @ py ''warning'')"
proof -
  let ?err = "py ''EXEC_ERROR:NameError: a'' @ [0x0A] @ py ''warning'' @ [0x0A] @ py ''EXEC_ERROR:TypeError: b''"
  let ?w = "calm (CompletedProcess (py ''out'') ?err)"
  let ?d = "[py ''kata.py'' \<mapsto> Text (py ''x'')]"
  have h1: "workspace_of ?w (py ''x'') None = Some ?d"
    by (simp add: eval_defs)
  have h2: "subprocess_run ?w ?d = CompletedProcess (py ''out'') ?err"
    by (simp add: calm_def)
  have h3: "remove_fault ?w = None"
    by (simp add: calm_def)
  have h4: "2 \<le> length (exec_error_lines (splitlines (strip ?err)))"
    by (simp add: eval_defs exec_error_lines_def)
  have e1: "make_friendly_error (drop (length (py ''EXEC_ERROR:'')) (last (exec_error_lines (splitlines (strip ?err)))))
      = [0x11F, 0x178, 0x201D, 0xA7] @ py '' Type error: TypeError: b''"
    by (simp add: eval_defs exec_error_lines_def)
  have e2: "join [0x0A] (stdout_logs (splitlines (strip (py ''out''))) @ stderr_logs (splitlines (strip ?err)))
      = py ''out'' @ [0x0A] @ py ''warning''"
    by (simp add: eval_defs stdout_logs_def stderr_logs_def log_of_def)
  show ?thesis
    using h3 h4 run_code_last_exec_error [OF h1 h2 h3 h4] e1 e2 by auto
qed

section \<open>Asset names\<close>


lemma split_sep_no_sep: "x \<in> set (split_sep p) \<Longrightarrow> 0x2F \<notin> set x"
proof (induction p arbitrary: x)
  case Nil
  then show ?case by simp
next
  case (Cons c cs)
  then show ?case
    by (cases "split_sep cs") (auto split: if_splits)
qed

lemma Path_name_part: "Path_name p \<noteq> [] \<Longrightarrow> Path_name p \<in> set (path_parts p)"
  by (auto simp: Path_name_def split: if_splits)

lemma Path_name_plain:
  "0x2F \<notin> set (Path_name p) \<and> Path_name p \<noteq> py ''.''"
proof (cases "Path_name p = []")
  case True
  then show ?thesis by (simp add: py_def)
next
  case False
  then have "Path_name p \<in> set (path_parts p)" by (rule Path_name_part)
  then show ?thesis
    by (auto simp: path_parts_def dest: split_sep_no_sep)
qed

lemma write_entry_cases:
  assumes "write_entry w dd n c = (d, x)"
  shows "(x = None \<and> d = dd(n \<mapsto> c) \<and> n \<noteq> py ''..'') \<or> (x \<noteq> None \<and> d = dd)"
  using assms by (auto simp: write_entry_def split: if_splits option.splits)

lemma wanted_Cons:
  "wanted ((f, c) # fs) =
     (if Path_name f = [] then wanted fs else (Path_name f, Bytes c) # wanted fs)"
  by (simp add: wanted_def)

lemma write_each_frame:
  assumes "write_each w dd fs = (d, x)"
  shows "(\<forall>n. d n \<noteq> dd n \<longrightarrow> n \<in> fst ` set (wanted fs) \<and> n \<noteq> py ''..'') \<and>
         (x = None \<longrightarrow> d = foldl put dd (wanted fs))"
  using assms
proof (induction fs arbitrary: dd)
  case Nil
  then show ?case by (simp add: wanted_def)
next
  case (Cons a fs)
  obtain f c where a: "a = (f, c)" by (cases a)
  show ?case
  proof (cases "Path_name f = []")
    case True
    with Cons.prems a have "write_each w dd fs = (d, x)" by simp
    from Cons.IH [OF this] True show ?thesis
      unfolding a wanted_Cons by simp
  next
    case False
    obtain d1 x1 where we: "write_entry w dd (Path_name f) (Bytes c) = (d1, x1)"
      by (cases "write_entry w dd (Path_name f) (Bytes c)")
    from write_entry_cases [OF we] show ?thesis
    proof
      assume ok: "x1 = None \<and> d1 = dd(Path_name f \<mapsto> Bytes c) \<and> Path_name f \<noteq> py ''..''"
      with Cons.prems a False we have "write_each w d1 fs = (d, x)" by simp
      from Cons.IH [OF this]
      have ih1: "\<And>n. d n \<noteq> d1 n \<Longrightarrow> n \<in> fst ` set (wanted fs) \<and> n \<noteq> py ''..''"
        and ih2: "x = None \<Longrightarrow> d = foldl put d1 (wanted fs)"
        by blast+
      have w: "wanted (a # fs) = (Path_name f, Bytes c) # wanted fs"
        using False unfolding a wanted_Cons by simp
      have p: "put dd (Path_name f, Bytes c) = d1"
        using ok by (simp add: put_def)
      have "n \<in> fst ` set (wanted (a # fs)) \<and> n \<noteq> py ''..''" if "d n \<noteq> dd n" for n
      proof (cases "n = Path_name f")
        case True
        with ok show ?thesis unfolding w by simp
      next
        case False
        with ok have "d1 n = dd n" by simp
        with that have "d n \<noteq> d1 n" by simp
        from ih1 [OF this] show ?thesis unfolding w by simp
      qed
      moreover have "d = foldl put dd (wanted (a # fs))" if "x = None"
        using ih2 [OF that] p unfolding w by simp
      ultimately show ?thesis by blast
    next
      assume bad: "x1 \<noteq> None \<and> d1 = dd"
      then obtain e where "x1 = Some e" by auto
      with Cons.prems a False we bad have "d = dd" and "x \<noteq> None" by auto
      then show ?thesis by auto
    qed
  qed
qed

lemma wanted_plain:
  assumes "n \<in> fst ` set (wanted fs)"
  shows "n \<noteq> [] \<and> 0x2F \<notin> set n \<and> n \<noteq> py ''.''"
proof -
  from assms obtain f where "n = Path_name f" and "Path_name f \<noteq> []"
    by (auto simp: wanted_def)
  then show ?thesis using Path_name_plain [of f] by simp
qed

text \<open>
  C9. \<open>_write_uploaded_files\<close> touches only entries of the workspace whose name is
  the base name of an asset's display name: such a name is not empty, holds no \<open>/\<close>
  and is neither \<open>.\<close> nor \<open>..\<close>, so the entry lies in the workspace itself. When it
  returns normally the workspace holds every asset under its base name, those with an
  empty base name left out. An asset named \<open>../../evil.txt\<close> becomes the entry
  \<open>evil.txt\<close> of the workspace.
\<close>

theorem write_uploaded_files_base_names:
  "(write_uploaded_files w run_dir uploaded_files = (d, x) \<longrightarrow>
      (\<forall>n. d n \<noteq> run_dir n \<longrightarrow>
         n \<in> fst ` set (wanted (assets uploaded_files)) \<and>
         n \<noteq> [] \<and> 0x2F \<notin> set n \<and> n \<noteq> py ''.'' \<and> n \<noteq> py ''..'') \<and>
      (x = None \<longrightarrow> d = foldl put run_dir (wanted (assets uploaded_files)))) \<and>
   (write_fault w (py ''evil.txt'') = None \<longrightarrow>
      write_uploaded_files w run_dir (Some [(py ''../../evil.txt'', c)]) =
        (run_dir(py ''evil.txt'' \<mapsto> Bytes c), None))"
proof (intro conjI impI)
  assume a: "write_uploaded_files w run_dir uploaded_files = (d, x)"
  have "write_each w run_dir (assets uploaded_files) = (d, x)"
    using a by (auto simp: write_uploaded_files_def assets_def split: option.splits if_splits)
  from write_each_frame [OF this]
  show "\<forall>n. d n \<noteq> run_dir n \<longrightarrow>
         n \<in> fst ` set (wanted (assets uploaded_files)) \<and>
         n \<noteq> [] \<and> 0x2F \<notin> set n \<and> n \<noteq> py ''.'' \<and> n \<noteq> py ''..''"
    and "x = None \<Longrightarrow> d = foldl put run_dir (wanted (assets uploaded_files))"
    using wanted_plain by blast+
next
  assume "write_fault w (py ''evil.txt'') = None"
  then have "write_fault w [101, 118, 105, 108, 46, 116, 120, 116] = None"
    by (simp add: py_def)
  then show "write_uploaded_files w run_dir (Some [(py ''../../evil.txt'', c)]) =
        (run_dir(py ''evil.txt'' \<mapsto> Bytes c), None)"
    by (simp add: write_uploaded_files_def write_entry_def Path_name_def path_parts_def py_def)
qed

theorem write_uploaded_files_base_names_witness:
  "write_fault (calm (CompletedProcess [] [])) (py ''evil.txt'') = None \<and>
   write_uploaded_files (calm (CompletedProcess [] [])) Map.empty
       (Some [(py ''../../evil.txt'', [1, 2]), (py ''a/./'', [3]), (py ''./'', [4])]) =
     ([py ''evil.txt'' \<mapsto> Bytes [1, 2], py ''a'' \<mapsto> Bytes [3]], None) \<and>
   foldl put Map.empty (wanted (assets (Some [(py ''../../evil.txt'', [1, 2]), (py ''a/./'', [3]), (py ''./'', [4])]))) =
     [py ''evil.txt'' \<mapsto> Bytes [1, 2], py ''a'' \<mapsto> Bytes [3]] \<and>
   write_uploaded_files (calm (CompletedProcess [] [])) Map.empty (Some [(py ''../../evil.txt'', [1, 2])]) =
     ([py ''evil.txt'' \<mapsto> Bytes [1, 2]], None)"
proof -
  let ?w = "calm (CompletedProcess [] [])"
  let ?fs = "Some [(py ''../../evil.txt'', [1, 2]), (py ''a/./'', [3]), (py ''./'', [4])]"
  let ?d = "[py ''evil.txt'' \<mapsto> Bytes [1, 2], py ''a'' \<mapsto> Bytes [3]]"
  have h1: "write_fault ?w (py ''evil.txt'') = None"
    by (simp add: calm_def)
  have h2: "write_uploaded_files ?w Map.empty ?fs = (?d, None)"
    by (simp add: eval_defs Path_name_def path_parts_def)
  note t = write_uploaded_files_base_names [of ?w Map.empty ?fs ?d None "[1, 2]"]
  from t h2 have e1: "?d = foldl put Map.empty (wanted (assets ?fs))"
    by blast
  from t h1 have e2: "write_uploaded_files ?w Map.empty (Some [(py ''../../evil.txt'', [1, 2])]) =
     ([py ''evil.txt'' \<mapsto> Bytes [1, 2]], None)"
    by blast
  show ?thesis
    using h1 h2 e1 [symmetric] e2 by blast
qed

section \<open>Facts about stopping\<close>


lemma stop_local_registry: "active_local_process (snd (stop_local w s)) = None"
  by (simp add: stop_local_def Let_def split: option.splits)

lemma stop_local_length: "length (procs (snd (stop_local w s))) = length (procs s)"
  by (simp add: stop_local_def Let_def split: option.splits)

lemma stop_local_running:
  "running (snd (stop_local w s)) q \<longleftrightarrow> running s q \<and> active_local_process s \<noteq> Some q"
  by (auto simp: stop_local_def Let_def running_def nth_list_update split: option.splits)

lemma stop_local_none:
  assumes "active_local_process s = None"
  shows "stop_local w s = (\<lparr>stopped = False, message = py ''No local process was running.''\<rparr>, s)"
  using assms by (cases s) (simp add: stop_local_def)

lemma stop_local_exited:
  assumes "active_local_process s = Some p" and "\<not> running s p"
  shows "stop_local w s =
    (\<lparr>stopped = False, message = py ''No local process was running.''\<rparr>,
     s\<lparr>active_local_process := None\<rparr>)"
  using assms by (simp add: stop_local_def Let_def running_def)

lemma stop_local_running_handle:
  assumes "active_local_process s = Some p" and "running s p"
  shows "fst (stop_local w s) = \<lparr>stopped = True, message = py ''Local process stopped.''\<rparr> \<and>
    \<not> running (snd (stop_local w s)) p \<and>
    signals (snd (stop_local w s)) =
      signals s @ (if exits_in_grace w then [(p, SIGTERM)] else [(p, SIGTERM), (p, SIGKILL)])"
  using assms by (simp add: stop_local_def Let_def running_def)

lemma remove_workspace_fields:
  "procs (remove_workspace w d s) = procs s"
  "signals (remove_workspace w d s) = signals s"
  "active_local_process (remove_workspace w d s) = active_local_process s"
  "watchers (remove_workspace w d s) = watchers s"
  by (simp_all add: remove_workspace_def split: option.splits)

lemmas state_defs =
  run_local_def stop_local_def cleanup_def remove_workspace_def running_def init_def
  calm_def write_entry_def write_uploaded_files_def Path_name_def path_parts_def
  py_def Let_def

section \<open>Stopping the foreground process\<close>

text \<open>
  A process that exits by itself stays in the slot until its cleanup thread runs; a stop
  in between finds the handle, sees that the process is gone and reports that nothing
  was running.
\<close>


theorem stop_local_handle_exited_counterexample:
  "exec init [Launch (calm (CompletedProcess [] [])) (py ''a'') None, ProcessExit 0] =
     Some \<lparr>active_local_process = Some 0, procs = [Exited], signals = [],
           dirs = [Some [py ''kata.py'' \<mapsto> Text (py ''a'')]], watchers = [(0, 0)]\<rparr> \<and>
   active_local_process
     \<lparr>active_local_process = Some 0, procs = [Exited], signals = [],
      dirs = [Some [py ''kata.py'' \<mapsto> Text (py ''a'')]], watchers = [(0, 0)]\<rparr> = Some 0 \<and>
   stop_local (calm (CompletedProcess [] []))
     \<lparr>active_local_process = Some 0, procs = [Exited], signals = [],
      dirs = [Some [py ''kata.py'' \<mapsto> Text (py ''a'')]], watchers = [(0, 0)]\<rparr> =
     (\<lparr>stopped = False, message = py ''No local process was running.''\<rparr>,
      \<lparr>active_local_process = None, procs = [Exited], signals = [],
       dirs = [Some [py ''kata.py'' \<mapsto> Text (py ''a'')]], watchers = [(0, 0)]\<rparr>)"
  by (simp add: state_defs)

text \<open>
  C7, amended. \<open>stop_local\<close> takes the handle and clears the slot in one step; the slot
  is empty afterwards. With no handle it returns \<open>stopped = False\<close> with the message
  that nothing was running and changes nothing. With a handle whose process still runs
  it sends \<open>terminate\<close>, and \<open>kill\<close> as well when the process is not gone within the
  grace period, and returns \<open>stopped = True\<close>; the process no longer runs. With a
  handle whose process has already exited it only clears the slot and returns
  \<open>stopped = False\<close>. A second stop finds nothing and changes nothing.
\<close>

theorem stop_local_takes_and_clears:
  "active_local_process (snd (stop_local w s)) = None \<and>
   (active_local_process s = None \<longrightarrow>
      stop_local w s = (\<lparr>stopped = False, message = py ''No local process was running.''\<rparr>, s)) \<and>
   (\<forall>p. active_local_process s = Some p \<and> running s p \<longrightarrow>
      fst (stop_local w s) = \<lparr>stopped = True, message = py ''Local process stopped.''\<rparr> \<and>
      \<not> running (snd (stop_local w s)) p \<and>
      signals (snd (stop_local w s)) =
        signals s @ (if exits_in_grace w then [(p, SIGTERM)] else [(p, SIGTERM), (p, SIGKILL)])) \<and>
   (\<forall>p. active_local_process s = Some p \<and> \<not> running s p \<longrightarrow>
      stop_local w s =
        (\<lparr>stopped = False, message = py ''No local process was running.''\<rparr>,
         s\<lparr>active_local_process := None\<rparr>)) \<and>
   stop_local w' (snd (stop_local w s)) =
     (\<lparr>stopped = False, message = py ''No local process was running.''\<rparr>, snd (stop_local w s))"
proof (intro conjI allI impI)
  show "active_local_process (snd (stop_local w s)) = None"
    by (rule stop_local_registry)
  show "stop_local w s = (\<lparr>stopped = False, message = py ''No local process was running.''\<rparr>, s)"
    if "active_local_process s = None"
    using that by (rule stop_local_none)
  show "stop_local w' (snd (stop_local w s)) =
     (\<lparr>stopped = False, message = py ''No local process was running.''\<rparr>, snd (stop_local w s))"
    using stop_local_registry by (rule stop_local_none)
next
  fix p
  assume a: "active_local_process s = Some p \<and> running s p"
  then have a1: "active_local_process s = Some p" and a2: "running s p" by simp_all
  note t = stop_local_running_handle [OF a1 a2, of w]
  show "fst (stop_local w s) = \<lparr>stopped = True, message = py ''Local process stopped.''\<rparr>"
    using t by (rule conjunct1)
  show "\<not> running (snd (stop_local w s)) p"
    using t [THEN conjunct2] by (rule conjunct1)
  show "signals (snd (stop_local w s)) =
        signals s @ (if exits_in_grace w then [(p, SIGTERM)] else [(p, SIGTERM), (p, SIGKILL)])"
    using t [THEN conjunct2] by (rule conjunct2)
next
  fix p
  assume a: "active_local_process s = Some p \<and> \<not> running s p"
  then have a1: "active_local_process s = Some p" and a2: "\<not> running s p" by simp_all
  show "stop_local w s =
        (\<lparr>stopped = False, message = py ''No local process was running.''\<rparr>,
         s\<lparr>active_local_process := None\<rparr>)"
    using a1 a2 by (rule stop_local_exited)
qed

theorem stop_local_takes_and_clears_witness:
  "active_local_process \<lparr>active_local_process = Some 0, procs = [Running], signals = [],
      dirs = [], watchers = [(0, 0)]\<rparr> = Some 0 \<and>
   running \<lparr>active_local_process = Some 0, procs = [Running], signals = [],
      dirs = [], watchers = [(0, 0)]\<rparr> 0 \<and>
   fst (stop_local (calm (CompletedProcess [] []) \<lparr>exits_in_grace := False\<rparr>)
      \<lparr>active_local_process = Some 0, procs = [Running], signals = [],
       dirs = [], watchers = [(0, 0)]\<rparr>) =
     \<lparr>stopped = True, message = py ''Local process stopped.''\<rparr> \<and>
   signals (snd (stop_local (calm (CompletedProcess [] []) \<lparr>exits_in_grace := False\<rparr>)
      \<lparr>active_local_process = Some 0, procs = [Running], signals = [],
       dirs = [], watchers = [(0, 0)]\<rparr>)) = [(0, SIGTERM), (0, SIGKILL)]"
proof -
  let ?w = "calm (CompletedProcess [] []) \<lparr>exits_in_grace := False\<rparr>"
  let ?s = "\<lparr>active_local_process = Some 0, procs = [Running], signals = [],
      dirs = [], watchers = [(0, 0)]\<rparr>"
  have h1: "active_local_process ?s = Some 0" by simp
  have h2: "running ?s 0" by (simp add: running_def)
  have h: "active_local_process ?s = Some 0 \<and> running ?s 0"
    using h1 h2 by (rule conjI)
  have g: "\<not> exits_in_grace ?w" by (simp add: calm_def)
  note t = stop_local_takes_and_clears [of ?w ?s, THEN conjunct2, THEN conjunct2, THEN conjunct1,
      rule_format, OF h]
  have e1: "fst (stop_local ?w ?s) = \<lparr>stopped = True, message = py ''Local process stopped.''\<rparr>"
    using t by (rule conjunct1)
  have "signals (snd (stop_local ?w ?s)) =
      signals ?s @ (if exits_in_grace ?w then [(0, SIGTERM)] else [(0, SIGTERM), (0, SIGKILL)])"
    using t [THEN conjunct2] by (rule conjunct2)
  then have e2: "signals (snd (stop_local ?w ?s)) = [(0, SIGTERM), (0, SIGKILL)]"
    using g by simp
  show ?thesis
    using h1 h2 e1 e2 by (intro conjI) assumption+
qed

section \<open>A launch that fails\<close>

text \<open>
  When the child cannot be spawned, the handler removes the workspace, registers
  nothing and returns the error.
\<close>


lemma run_local_spawn_fault:
  assumes "mkdtemp_fault w = None"
    and "write_entry w Map.empty (py ''kata.py'') (Text code) = (d1, None)"
    and "write_uploaded_files w d1 uploaded_files = (d, None)"
    and "Popen_fault w = Some m"
    and "remove_fault w = None"
  shows "run_local w code uploaded_files s =
    (Inr \<lparr>image_b64 = None, logs = [], error = py ''Failed to launch: '' @ m\<rparr>,
     (snd (stop_local w s))\<lparr>dirs := dirs (snd (stop_local w s)) @ [None]\<rparr>)"
  using assms by (simp add: run_local_def Let_def remove_workspace_def list_update_append)

text \<open>
  C2. A failure to write the source or an asset is to be handled as a failure to spawn
  is. In \<open>run_local\<close> the writes stand before the \<open>try\<close>: with an asset named
  \<open>..\<close> the write raises, the exception leaves \<open>run_local\<close>, and the workspace
  with \<open>kata.py\<close> stays on disk.
\<close>

theorem run_local_write_fault_escapes:
  "run_local (calm (CompletedProcess [] [])) (py ''cv2.VideoCapture(0)'') (Some [(py ''..'', [])]) init =
     (Inl (OSError (py ''[Errno 21] Is a directory'')),
      \<lparr>active_local_process = None, procs = [], signals = [],
       dirs = [Some [py ''kata.py'' \<mapsto> Text (py ''cv2.VideoCapture(0)'')]], watchers = []\<rparr>)"
  by (simp add: state_defs)

section \<open>The registry under interleaved threads\<close>

text \<open>
  \<open>stop_local\<close> and \<open>run_local\<close> are their parts run one after the other.
\<close>


lemma stop_finish_fields:
  "active_local_process (snd (stop_finish w proc s)) = active_local_process s"
  "watchers (snd (stop_finish w proc s)) = watchers s"
  "length (procs (snd (stop_finish w proc s))) = length (procs s)"
  by (simp_all add: stop_finish_def Let_def split: option.splits)

lemma stop_finish_running:
  "running (snd (stop_finish w proc s)) q \<longleftrightarrow> running s q \<and> proc \<noteq> Some q"
  by (auto simp: stop_finish_def Let_def running_def nth_list_update split: option.splits)

lemma stop_finish_signal:
  "running s p \<Longrightarrow> (p, SIGTERM) \<in> set (signals (snd (stop_finish w (Some p) s)))"
  by (simp add: stop_finish_def Let_def)

lemma stop_local_phases:
  "stop_local w s =
     stop_finish w (active_local_process s) (s\<lparr>active_local_process := None\<rparr>)"
  by (simp add: stop_local_def stop_finish_def Let_def running_def split: option.splits)

lemma launch_prepare_fields:
  assumes "launch_prepare w code fs s = (r, s')"
  shows "procs s' = procs s \<and> active_local_process s' = active_local_process s \<and>
    watchers s' = watchers s \<and> signals s' = signals s"
  using assms
  by (auto simp: launch_prepare_def Let_def split: option.splits prod.splits)

lemma run_local_phases:
  "run_local w code fs s0 =
     (case launch_prepare w code fs (snd (stop_local w s0)) of
        (Inl e, s) \<Rightarrow> (Inl e, s)
      | (Inr run_dir, s) \<Rightarrow>
          (case Popen_fault w of
             None \<Rightarrow>
               (Inr \<lparr>image_b64 = None, logs = launched_message, error = []\<rparr>,
                s\<lparr>procs := procs s @ [Running],
                  active_local_process := Some (length (procs s)),
                  watchers := watchers s @ [(length (procs s), run_dir)]\<rparr>)
           | Some m \<Rightarrow>
               (Inr \<lparr>image_b64 = None, logs = [], error = py ''Failed to launch: '' @ m\<rparr>,
                remove_workspace w run_dir s)))"
  by (simp add: run_local_def launch_prepare_def Let_def split: option.splits prod.splits)

lemma running_updates [simp]:
  "running (s\<lparr>active_local_process := x\<rparr>) p = running s p"
  "running (s\<lparr>watchers := y\<rparr>) p = running s p"
  "running (remove_workspace w d s) p = running s p"
  by (simp_all add: running_def remove_workspace_def split: option.splits)


text \<open>The discipline is kept by every step of every thread.\<close>

lemma disciplined_main_step:
  assumes d: "disciplined c" and st: "main_step c = Some c'"
  shows "disciplined c'"
proof -
  from d have L: "lock_ok c" and O: "no_orphan c" and S: "slot_ok c" and T: "threads_ok c"
    by (simp_all add: disciplined_def)
  show ?thesis
  proof (cases "main c")
    case Idle
    with st show ?thesis by simp
  next
    case (Stop_acquire w k)
    with st have c': "c' = c\<lparr>lock := Some Main, main := Stop_take w k\<rparr>" and free: "lock c = None"
      by (simp_all split: if_splits)
    have "lock_ok c'" using L free by (auto simp: c' lock_ok_def)
    moreover have "no_orphan c'" using O Stop_acquire by (simp add: c' no_orphan_def)
    moreover have "slot_ok c'" by (simp add: c' slot_ok_def)
    moreover have "threads_ok c'" using T Stop_acquire by (simp add: c' threads_ok_def)
    ultimately show ?thesis by (simp add: disciplined_def)
  next
    case (Stop_take w k)
    with st have c': "c' = c\<lparr>mem := (mem c)\<lparr>active_local_process := None\<rparr>,
        main := Stop_release w k (active_local_process (mem c))\<rparr>"
      by simp
    have "lock_ok c'" using L Stop_take by (auto simp: c' lock_ok_def)
    moreover have "no_orphan c'" using O Stop_take by (simp add: c' no_orphan_def)
    moreover have "slot_ok c'" by (simp add: c' slot_ok_def)
    moreover have "threads_ok c'" using T Stop_take by (simp add: c' threads_ok_def)
    ultimately show ?thesis by (simp add: disciplined_def)
  next
    case (Stop_release w k proc)
    with st have c': "c' = c\<lparr>lock := None, main := Stop_finish w k proc\<rparr>"
      by simp
    from L Stop_release have held: "lock c = Some Main" by (simp add: lock_ok_def)
    have "lock_ok c'" using L held by (auto simp: c' lock_ok_def)
    moreover have "no_orphan c'" using O Stop_release by (simp add: c' no_orphan_def)
    moreover have "slot_ok c'" using S Stop_release by (simp add: c' slot_ok_def)
    moreover have "threads_ok c'" using T Stop_release by (simp add: c' threads_ok_def)
    ultimately show ?thesis by (simp add: disciplined_def)
  next
    case (Stop_finish w k proc)
    define pc where "pc = (case k of Return \<Rightarrow> Idle
      | Then_launch code uploaded_files \<Rightarrow> Launch_prepare w code uploaded_files)"
    from st Stop_finish have c': "c' = c\<lparr>mem := snd (stop_finish w proc (mem c)), main := pc\<rparr>"
      by (simp add: pc_def)
    have pc: "\<not> main_inside pc" "hand pc = None" "spawned pc = None" "slot_at pc None"
      by (simp_all add: pc_def split: after_stop.splits)
    from S Stop_finish have slot: "active_local_process (mem c) = None"
      by (simp add: slot_ok_def)
    have "lock_ok c'" using L Stop_finish pc by (auto simp: c' lock_ok_def)
    moreover have "no_orphan c'"
      using O Stop_finish slot pc by (auto simp: c' no_orphan_def stop_finish_running)
    moreover have "slot_ok c'" using slot pc by (simp add: c' slot_ok_def stop_finish_fields)
    moreover have "threads_ok c'"
      using T pc by (simp add: c' threads_ok_def stop_finish_fields stop_finish_running)
    ultimately show ?thesis by (simp add: disciplined_def)
  next
    case (Launch_prepare w code fs)
    obtain r s where lp: "launch_prepare w code fs (mem c) = (r, s)"
      by (cases "launch_prepare w code fs (mem c)")
    from launch_prepare_fields [OF lp]
    have f: "procs s = procs (mem c)" "active_local_process s = active_local_process (mem c)"
      "watchers s = watchers (mem c)" by simp_all
    then have r: "running s p = running (mem c) p" for p
      by (simp add: running_def)
    define pc where "pc = (case r of Inl e \<Rightarrow> Idle | Inr run_dir \<Rightarrow> Launch_spawn w run_dir)"
    from st Launch_prepare lp have c': "c' = c\<lparr>mem := s, main := pc\<rparr>"
      by (simp add: pc_def split: sum.splits)
    have pc: "\<not> main_inside pc" "hand pc = None" "spawned pc = None"
      "slot_at pc (active_local_process (mem c))"
      using S Launch_prepare by (simp_all add: pc_def slot_ok_def split: sum.splits)
    have "lock_ok c'" using L Launch_prepare pc by (auto simp: c' lock_ok_def)
    moreover have "no_orphan c'" using O Launch_prepare pc by (simp add: c' no_orphan_def r f)
    moreover have "slot_ok c'" using pc by (simp add: c' slot_ok_def f)
    moreover have "threads_ok c'" using T pc by (simp add: c' threads_ok_def r f)
    ultimately show ?thesis by (simp add: disciplined_def)
  next
    case (Launch_spawn w d)
    from S Launch_spawn have slot: "active_local_process (mem c) = None"
      by (simp add: slot_ok_def)
    from O Launch_spawn slot have quiet: "\<not> running (mem c) p" for p
      by (auto simp: no_orphan_def)
    show ?thesis
    proof (cases "Popen_fault w")
      case (Some m)
      with st Launch_spawn have c': "c' = c\<lparr>mem := remove_workspace w d (mem c), main := Idle\<rparr>"
        by simp
      have "lock_ok c'" using L Launch_spawn by (auto simp: c' lock_ok_def)
      moreover have "no_orphan c'" using quiet by (simp add: c' no_orphan_def)
      moreover have "slot_ok c'" by (simp add: c' slot_ok_def)
      moreover have "threads_ok c'"
        using T by (simp add: c' threads_ok_def remove_workspace_fields)
      ultimately show ?thesis by (simp add: disciplined_def)
    next
      case None
      let ?q = "length (procs (mem c))"
      from None st Launch_spawn
      have c': "c' = c\<lparr>mem := (mem c)\<lparr>procs := procs (mem c) @ [Running]\<rparr>,
          main := Launch_acquire w ?q d\<rparr>"
        by simp
      have run: "running (mem c') p \<longleftrightarrow> p = ?q" for p
        using quiet [of p] by (auto simp: c' running_def nth_append)
      from T have fresh: "?q \<notin> fst ` set (watchers (mem c))"
        by (auto simp: threads_ok_def)
      have "lock_ok c'" using L Launch_spawn by (auto simp: c' lock_ok_def)
      moreover have "no_orphan c'" using run by (simp add: no_orphan_def) (simp add: c')
      moreover have "slot_ok c'" using slot by (simp add: c' slot_ok_def)
      moreover have "threads_ok c'"
      proof -
        have t1: "\<forall>x\<in>set (watchers (mem c')). fst x < length (procs (mem c'))"
          using T by (auto simp: c' threads_ok_def less_Suc_eq)
        have t2: "p \<in> fst ` set (watchers (mem c')) \<and> \<not> running (mem c') p"
          if "cleaners c' p \<noteq> Cl_wait" for p
        proof -
          from that T have w: "p \<in> fst ` set (watchers (mem c))"
            by (simp add: c' threads_ok_def)
          with fresh have "p \<noteq> ?q" by blast
          with run w show ?thesis by (simp add: c')
        qed
        have t3: "p < length (procs (mem c')) \<and> p \<notin> fst ` set (watchers (mem c'))"
          if "spawned (main c') = Some p" for p
        proof -
          from that have "p = ?q" by (simp add: c')
          with fresh show ?thesis by (simp add: c')
        qed
        from t1 t2 t3 show ?thesis
          unfolding threads_ok_def by blast
      qed
      ultimately show ?thesis by (simp add: disciplined_def)
    qed
  next
    case (Launch_acquire w p d)
    with st have c': "c' = c\<lparr>lock := Some Main, main := Launch_register w p d\<rparr>"
      and free: "lock c = None"
      by (simp_all split: if_splits)
    have "lock_ok c'" using L free by (auto simp: c' lock_ok_def)
    moreover have "no_orphan c'" using O Launch_acquire by (simp add: c' no_orphan_def)
    moreover have "slot_ok c'" using S Launch_acquire by (simp add: c' slot_ok_def)
    moreover have "threads_ok c'" using T Launch_acquire by (simp add: c' threads_ok_def)
    ultimately show ?thesis by (simp add: disciplined_def)
  next
    case (Launch_register w p d)
    with st have c': "c' = c\<lparr>mem := (mem c)\<lparr>active_local_process := Some p\<rparr>,
        main := Launch_release w p d\<rparr>"
      by simp
    have "lock_ok c'" using L Launch_register by (auto simp: c' lock_ok_def)
    moreover have "no_orphan c'"
      using O S Launch_register by (auto simp: c' no_orphan_def slot_ok_def)
    moreover have "slot_ok c'" by (simp add: c' slot_ok_def)
    moreover have "threads_ok c'" using T Launch_register by (simp add: c' threads_ok_def)
    ultimately show ?thesis by (simp add: disciplined_def)
  next
    case (Launch_release w p d)
    with st have c': "c' = c\<lparr>lock := None, main := Launch_thread w p d\<rparr>"
      by simp
    from L Launch_release have held: "lock c = Some Main" by (simp add: lock_ok_def)
    have "lock_ok c'" using L held by (auto simp: c' lock_ok_def)
    moreover have "no_orphan c'" using O Launch_release by (simp add: c' no_orphan_def)
    moreover have "slot_ok c'" using S Launch_release by (simp add: c' slot_ok_def)
    moreover have "threads_ok c'" using T Launch_release by (simp add: c' threads_ok_def)
    ultimately show ?thesis by (simp add: disciplined_def)
  next
    case (Launch_thread w p d)
    with st have c': "c' = c\<lparr>mem := (mem c)\<lparr>watchers := watchers (mem c) @ [(p, d)]\<rparr>,
        main := Idle\<rparr>"
      by simp
    from S Launch_thread have slot: "active_local_process (mem c) = Some p"
      by (simp add: slot_ok_def)
    from T Launch_thread have p: "p < length (procs (mem c))"
      by (simp add: threads_ok_def)
    have "lock_ok c'" using L Launch_thread by (auto simp: c' lock_ok_def)
    moreover have "no_orphan c'" using O Launch_thread slot by (auto simp: c' no_orphan_def)
    moreover have "slot_ok c'" by (simp add: c' slot_ok_def)
    moreover have "threads_ok c'" using T p by (auto simp: c' threads_ok_def)
    ultimately show ?thesis by (simp add: disciplined_def)
  qed
qed


lemma disciplined_cleaner_step:
  assumes d: "disciplined c" and st: "cleaner_step w p dir c = Some c'"
  shows "disciplined c'"
proof -
  from d have L: "lock_ok c" and O: "no_orphan c" and S: "slot_ok c" and T: "threads_ok c"
    by (simp_all add: disciplined_def)
  from st have here: "(p, dir) \<in> set (watchers (mem c))"
    by (simp add: cleaner_step_def split: if_splits)
  then have mine: "p \<in> fst ` set (watchers (mem c))" by force
  with T have notnew: "spawned (main c) \<noteq> Some p"
    by (auto simp: threads_ok_def)
  show ?thesis
  proof (cases "cleaners c p")
    case Cl_wait
    with st here have c': "c' = c\<lparr>cleaners := (cleaners c)(p := Cl_acquire)\<rparr>"
      and gone: "\<not> running (mem c) p"
      by (simp_all add: cleaner_step_def split: if_splits)
    have "lock_ok c'" using L Cl_wait by (auto simp: c' lock_ok_def)
    moreover have "no_orphan c'" using O by (simp add: c' no_orphan_def)
    moreover have "slot_ok c'" using S by (simp add: c' slot_ok_def)
    moreover have "threads_ok c'" using T mine gone by (auto simp: c' threads_ok_def)
    ultimately show ?thesis by (simp add: disciplined_def)
  next
    case Cl_acquire
    with st here have c': "c' = c\<lparr>lock := Some (Cleaner p), cleaners := (cleaners c)(p := Cl_clear)\<rparr>"
      and free: "lock c = None"
      by (simp_all add: cleaner_step_def split: if_splits)
    have "lock_ok c'" using L free by (auto simp: c' lock_ok_def)
    moreover have "no_orphan c'" using O by (simp add: c' no_orphan_def)
    moreover have "slot_ok c'" using S by (simp add: c' slot_ok_def)
    moreover have "threads_ok c'" using T Cl_acquire by (auto simp: c' threads_ok_def)
    ultimately show ?thesis by (simp add: disciplined_def)
  next
    case Cl_clear
    define m where "m = (if active_local_process (mem c) = Some p
      then (mem c)\<lparr>active_local_process := None\<rparr> else mem c)"
    from st here Cl_clear have c': "c' = c\<lparr>mem := m, cleaners := (cleaners c)(p := Cl_release)\<rparr>"
      by (simp add: cleaner_step_def m_def)
    have m: "procs m = procs (mem c)" "watchers m = watchers (mem c)"
      "running m q = running (mem c) q" for q
      by (simp_all add: m_def running_def)
    from T Cl_clear have gone: "\<not> running (mem c) p"
      by (auto simp: threads_ok_def)
    from L Cl_clear have held: "lock c = Some (Cleaner p)"
      by (auto simp: lock_ok_def)
    with L have out: "\<not> main_inside (main c)"
      by (auto simp: lock_ok_def)
    have "lock_ok c'" using L held by (auto simp: c' lock_ok_def)
    moreover have "no_orphan c'"
      using O gone by (auto simp: c' no_orphan_def m m_def)
    moreover have "slot_ok c'"
    proof (cases "active_local_process (mem c) = Some p")
      case False
      with S show ?thesis by (simp add: c' slot_ok_def m_def)
    next
      case True
      with S notnew out show ?thesis
        by (cases "main c") (simp_all add: c' slot_ok_def m_def)
    qed
    moreover have "threads_ok c'" using T Cl_clear by (auto simp: c' threads_ok_def m)
    ultimately show ?thesis by (simp add: disciplined_def)
  next
    case Cl_release
    with st here have c': "c' = c\<lparr>lock := None, cleaners := (cleaners c)(p := Cl_remove)\<rparr>"
      by (simp add: cleaner_step_def)
    from L Cl_release have held: "lock c = Some (Cleaner p)"
      by (auto simp: lock_ok_def)
    have "lock_ok c'" using L held by (auto simp: c' lock_ok_def)
    moreover have "no_orphan c'" using O by (simp add: c' no_orphan_def)
    moreover have "slot_ok c'" using S by (simp add: c' slot_ok_def)
    moreover have "threads_ok c'" using T Cl_release by (auto simp: c' threads_ok_def)
    ultimately show ?thesis by (simp add: disciplined_def)
  next
    case Cl_remove
    define m where "m = remove_workspace w dir
      ((mem c)\<lparr>watchers := remove1 (p, dir) (watchers (mem c))\<rparr>)"
    from st here Cl_remove have c': "c' = c\<lparr>mem := m, cleaners := (cleaners c)(p := Cl_wait)\<rparr>"
      by (simp add: cleaner_step_def m_def)
    have m: "procs m = procs (mem c)" "watchers m = remove1 (p, dir) (watchers (mem c))"
      "active_local_process m = active_local_process (mem c)"
      "running m q = running (mem c) q" for q
      by (simp_all add: m_def remove_workspace_fields)
    have "lock_ok c'" using L Cl_remove by (auto simp: c' lock_ok_def)
    moreover have "no_orphan c'" using O by (simp add: c' no_orphan_def m)
    moreover have "slot_ok c'" using S by (simp add: c' slot_ok_def m)
    moreover have "threads_ok c'"
    proof -
      have t1: "\<forall>x\<in>set (watchers (mem c')). fst x < length (procs (mem c'))"
        using T by (auto simp: c' m threads_ok_def dest: notin_set_remove1)
      have t2: "q \<in> fst ` set (watchers (mem c')) \<and> \<not> running (mem c') q"
        if "cleaners c' q \<noteq> Cl_wait" for q
      proof -
        from that have ne: "q \<noteq> p" and "cleaners c q \<noteq> Cl_wait"
          by (auto simp: c' split: if_splits)
        with T obtain x where x: "x \<in> set (watchers (mem c))" "fst x = q"
          and nr: "\<not> running (mem c) q"
          by (auto simp: threads_ok_def)
        from x ne have "x \<noteq> (p, dir)" by auto
        with x have "x \<in> set (remove1 (p, dir) (watchers (mem c)))" by simp
        with x nr show ?thesis by (force simp: c' m)
      qed
      have t3: "q < length (procs (mem c')) \<and> q \<notin> fst ` set (watchers (mem c'))"
        if "spawned (main c') = Some q" for q
      proof -
        from that T have "q < length (procs (mem c))" and "q \<notin> fst ` set (watchers (mem c))"
          by (simp_all add: c' threads_ok_def)
        moreover have "set (remove1 (p, dir) (watchers (mem c))) \<subseteq> set (watchers (mem c))"
          by (rule set_remove1_subset)
        ultimately show ?thesis
          by (auto simp: c' m)
      qed
      from t1 t2 t3 show ?thesis
        unfolding threads_ok_def by blast
    qed
    ultimately show ?thesis by (simp add: disciplined_def)
  qed
qed

lemma disciplined_sstep:
  assumes d: "disciplined c" and st: "sstep c a = Some c'"
  shows "disciplined c'"
proof (cases a)
  case (Call_stop w)
  with st have c': "c' = c\<lparr>main := Stop_acquire w Return\<rparr>" and idle: "main c = Idle"
    by (simp_all split: if_splits)
  from d idle show ?thesis
    by (simp add: c' disciplined_def lock_ok_def no_orphan_def slot_ok_def threads_ok_def)
next
  case (Call_launch w code fs)
  with st have c': "c' = c\<lparr>main := Stop_acquire w (Then_launch code fs)\<rparr>" and idle: "main c = Idle"
    by (simp_all split: if_splits)
  from d idle show ?thesis
    by (simp add: c' disciplined_def lock_ok_def no_orphan_def slot_ok_def threads_ok_def)
next
  case Main_step
  with st have "main_step c = Some c'" by simp
  with d show ?thesis by (rule disciplined_main_step)
next
  case (Cleaner_step w p dir)
  with st have "cleaner_step w p dir c = Some c'" by simp
  with d show ?thesis by (rule disciplined_cleaner_step)
next
  case (Process_exit p)
  with st have c': "c' = c\<lparr>mem := (mem c)\<lparr>procs := (procs (mem c))[p := Exited]\<rparr>\<rparr>"
    by (simp split: if_splits)
  have r: "running (mem c) q" if "running (mem c') q" for q
    using that by (cases "q = p") (auto simp: c' running_def)
  from d have L: "lock_ok c" and O: "no_orphan c" and S: "slot_ok c" and T: "threads_ok c"
    by (simp_all add: disciplined_def)
  have "lock_ok c'" using L by (simp add: c' lock_ok_def)
  moreover have "no_orphan c'" using O r by (auto simp: no_orphan_def) (auto simp: c')
  moreover have "slot_ok c'" using S by (simp add: c' slot_ok_def)
  moreover have "threads_ok c'"
  proof -
    have t1: "\<forall>x\<in>set (watchers (mem c')). fst x < length (procs (mem c'))"
      using T by (simp add: c' threads_ok_def)
    have t2: "q \<in> fst ` set (watchers (mem c')) \<and> \<not> running (mem c') q"
      if "cleaners c' q \<noteq> Cl_wait" for q
    proof -
      from that T have "q \<in> fst ` set (watchers (mem c))" and "\<not> running (mem c) q"
        by (simp_all add: c' threads_ok_def)
      with r [of q] show ?thesis by (auto simp: c')
    qed
    have t3: "q < length (procs (mem c')) \<and> q \<notin> fst ` set (watchers (mem c'))"
      if "spawned (main c') = Some q" for q
      using that T by (simp add: c' threads_ok_def)
    from t1 t2 t3 show ?thesis
      unfolding threads_ok_def by blast
  qed
  ultimately show ?thesis by (simp add: disciplined_def)
qed

lemma disciplined_sexec:
  assumes "disciplined c" and "sexec c as = Some c'"
  shows "disciplined c'"
  using assms
proof (induction as arbitrary: c)
  case Nil
  then show ?case by simp
next
  case (Cons a as)
  from Cons.prems(2) obtain c1 where s: "sstep c a = Some c1" and r: "sexec c1 as = Some c'"
    by (auto split: option.splits)
  from Cons.prems(1) s have "disciplined c1" by (rule disciplined_sstep)
  from this r show ?case by (rule Cons.IH)
qed

lemma disciplined_sys0: "disciplined sys0"
  by (simp add: disciplined_def lock_ok_def no_orphan_def slot_ok_def threads_ok_def
      sys0_def init_def running_def)


text \<open>
  The serving thread, left alone, takes \<open>stop_local\<close> through four steps and
  \<open>run_local\<close> through at most ten, and ends in the state these functions give.
\<close>

lemma main_run_stop_local:
  assumes "main c = Idle" and "lock c = None"
  shows "main_run 4 (c\<lparr>main := Stop_acquire w Return\<rparr>) =
    Some (c\<lparr>mem := snd (stop_local w (mem c))\<rparr>)"
  using assms
  by (cases c) (simp add: numeral_eq_Suc stop_local_phases)

lemma main_run_run_local:
  assumes "main c = Idle" and "lock c = None"
  shows "main_run 10 (c\<lparr>main := Stop_acquire w (Then_launch code fs)\<rparr>) =
    Some (c\<lparr>mem := snd (run_local w code fs (mem c))\<rparr>)"
proof -
  obtain r s where lp: "launch_prepare w code fs (snd (stop_local w (mem c))) = (r, s)"
    by (cases "launch_prepare w code fs (snd (stop_local w (mem c)))")
  show ?thesis
  proof (cases r)
    case (Inl e)
    with assms lp show ?thesis
      by (cases c) (simp add: numeral_eq_Suc stop_local_phases run_local_phases)
  next
    case (Inr run_dir)
    with assms lp show ?thesis
      by (cases c; cases "Popen_fault w")
        (simp_all add: numeral_eq_Suc stop_local_phases run_local_phases)
  qed
qed

lemma slot_change_holds_lock:
  assumes d: "disciplined c" and st: "sstep c a = Some c'"
    and ch: "active_local_process (mem c') \<noteq> active_local_process (mem c)"
  shows "lock c \<noteq> None \<and> lock c = actor a"
proof -
  from d have L: "lock_ok c" by (simp add: disciplined_def)
  show ?thesis
  proof (cases a)
    case (Call_stop w)
    with st ch show ?thesis by (auto split: if_splits)
  next
    case (Call_launch w code fs)
    with st ch show ?thesis by (auto split: if_splits)
  next
    case (Process_exit p)
    with st ch show ?thesis by (auto split: if_splits)
  next
    case Main_step
    with st have ms: "main_step c = Some c'" by simp
    have "main_inside (main c)"
    proof (cases "main c")
      case (Stop_finish w k proc)
      with ms ch show ?thesis by (auto simp: stop_finish_fields)
    next
      case (Launch_prepare w code fs)
      obtain r s where lp: "launch_prepare w code fs (mem c) = (r, s)"
        by (cases "launch_prepare w code fs (mem c)")
      from launch_prepare_fields [OF lp] ms ch Launch_prepare lp show ?thesis
        by (cases r) auto
    next
      case (Launch_spawn w d)
      with ms ch show ?thesis
        by (auto simp: remove_workspace_fields split: option.splits)
    qed (use ms ch in \<open>auto split: if_splits\<close>)
    with L Main_step show ?thesis by (simp add: lock_ok_def)
  next
    case (Cleaner_step w p dir)
    with st have cs: "cleaner_step w p dir c = Some c'" by simp
    have "cleaner_inside (cleaners c p)"
      using cs ch
      by (cases "cleaners c p")
        (auto simp: cleaner_step_def remove_workspace_fields split: if_splits)
    with L Cleaner_step show ?thesis by (auto simp: lock_ok_def)
  qed
qed

lemma one_running:
  assumes d: "disciplined c" and p: "running (mem c) p" and q: "running (mem c) q"
  shows "p = q"
proof -
  from d have O: "no_orphan c" and S: "slot_ok c" by (simp_all add: disciplined_def)
  from O p have 1: "active_local_process (mem c) = Some p \<or> hand (main c) = Some p"
    by (simp add: no_orphan_def)
  from O q have 2: "active_local_process (mem c) = Some q \<or> hand (main c) = Some q"
    by (simp add: no_orphan_def)
  from S have 3: "slot_at (main c) (active_local_process (mem c))"
    by (simp add: slot_ok_def)
  from 1 2 3 show ?thesis
    by (cases "main c") auto
qed


lemmas sys_defs =
  sys0_def cleaner_step_def stop_finish_def launch_prepare_def state_defs

text \<open>
  A launch over an active process whose child cannot be spawned: the prior process has
  been stopped by then, the handler registers nothing, and the slot is left empty.
\<close>

theorem launch_leaves_no_handle_counterexample:
  "sexec sys0
     [Call_launch (calm (CompletedProcess [] [])) (py ''a'') None,
      Main_step, Main_step, Main_step, Main_step, Main_step,
      Main_step, Main_step, Main_step, Main_step, Main_step] =
     Some \<lparr>mem = \<lparr>active_local_process = Some 0, procs = [Running], signals = [],
                 dirs = [Some [py ''kata.py'' \<mapsto> Text (py ''a'')]], watchers = [(0, 0)]\<rparr>,
           lock = None, main = Idle, cleaners = (\<lambda>p. Cl_wait)\<rparr> \<and>
   sexec sys0
     [Call_launch (calm (CompletedProcess [] [])) (py ''a'') None,
      Main_step, Main_step, Main_step, Main_step, Main_step,
      Main_step, Main_step, Main_step, Main_step, Main_step,
      Call_launch (calm (CompletedProcess [] []) \<lparr>Popen_fault := Some (py ''[Errno 12] Cannot allocate memory'')\<rparr>)
        (py ''b'') None,
      Main_step, Main_step, Main_step, Main_step, Main_step, Main_step] =
     Some \<lparr>mem = \<lparr>active_local_process = None, procs = [Exited], signals = [(0, SIGTERM)],
                 dirs = [Some [py ''kata.py'' \<mapsto> Text (py ''a'')], None], watchers = [(0, 0)]\<rparr>,
           lock = None, main = Idle, cleaners = (\<lambda>p. Cl_wait)\<rparr>"
  by (simp add: sys_defs)

text \<open>
  C8, amended. In every configuration that the serving thread, the cleanup threads and
  the exits of processes can reach, in any interleaving: the slot holds at most one
  handle; a step that changes the slot is taken by the thread that holds the lock; at
  most one foreground process runs, and it is the one in the slot or in the hand of the
  serving thread. In a launch the handle taken from the slot is terminated if it still
  runs. A launch that succeeds returns with exactly the new handle in the slot, no other
  process running. A launch that fails, because an input cannot be written or the child
  cannot be spawned, returns with the slot empty and no process running.
\<close>

theorem registry_discipline:
  assumes "sexec sys0 as = Some c"
  shows "card (set_option (active_local_process (mem c))) \<le> 1 \<and>
    (\<forall>a c'. sstep c a = Some c' \<and>
       active_local_process (mem c') \<noteq> active_local_process (mem c) \<longrightarrow>
         lock c \<noteq> None \<and> lock c = actor a) \<and>
    (\<forall>p q. running (mem c) p \<and> running (mem c) q \<longrightarrow> p = q) \<and>
    (\<forall>p. running (mem c) p \<longrightarrow>
       active_local_process (mem c) = Some p \<or> hand (main c) = Some p) \<and>
    (\<forall>w k p c'. main c = Stop_finish w k (Some p) \<and> running (mem c) p \<and>
       main_step c = Some c' \<longrightarrow>
         \<not> running (mem c') p \<and> (p, SIGTERM) \<in> set (signals (mem c'))) \<and>
    (\<forall>w p d c'. main c = Launch_thread w p d \<and> main_step c = Some c' \<longrightarrow>
       main c' = Idle \<and> active_local_process (mem c') = Some p \<and>
       (\<forall>q. running (mem c') q \<longrightarrow> q = p)) \<and>
    (\<forall>w d m c'. main c = Launch_spawn w d \<and> Popen_fault w = Some m \<and>
       main_step c = Some c' \<longrightarrow>
         main c' = Idle \<and> active_local_process (mem c') = None \<and>
         (\<forall>q. \<not> running (mem c') q)) \<and>
    (\<forall>w code fs e s c'. main c = Launch_prepare w code fs \<and>
       launch_prepare w code fs (mem c) = (Inl e, s) \<and> main_step c = Some c' \<longrightarrow>
         main c' = Idle \<and> active_local_process (mem c') = None \<and>
         (\<forall>q. \<not> running (mem c') q))"
proof -
  have d: "disciplined c"
    using disciplined_sys0 assms by (rule disciplined_sexec)
  then have O: "no_orphan c" and S: "slot_ok c" by (simp_all add: disciplined_def)
  have 1: "card (set_option (active_local_process (mem c))) \<le> 1"
    by (cases "active_local_process (mem c)") simp_all
  have 2: "lock c \<noteq> None \<and> lock c = actor a"
    if "sstep c a = Some c' \<and> active_local_process (mem c') \<noteq> active_local_process (mem c)"
    for a c'
  proof -
    from that have "sstep c a = Some c'"
      and "active_local_process (mem c') \<noteq> active_local_process (mem c)" by simp_all
    with d show ?thesis by (rule slot_change_holds_lock)
  qed
  have 3: "p = q" if "running (mem c) p \<and> running (mem c) q" for p q
  proof -
    from that have "running (mem c) p" and "running (mem c) q" by simp_all
    with d show ?thesis by (rule one_running)
  qed
  have 4: "active_local_process (mem c) = Some p \<or> hand (main c) = Some p"
    if "running (mem c) p" for p
    using O that by (simp add: no_orphan_def)
  have 5: "\<not> running (mem c') p \<and> (p, SIGTERM) \<in> set (signals (mem c'))"
    if "main c = Stop_finish w k (Some p) \<and> running (mem c) p \<and> main_step c = Some c'"
    for w k p c'
  proof -
    from that have "mem c' = snd (stop_finish w (Some p) (mem c))" and "running (mem c) p"
      by auto
    then show ?thesis
      by (simp add: stop_finish_running stop_finish_signal)
  qed
  have 6: "main c' = Idle \<and> active_local_process (mem c') = Some p \<and>
      (\<forall>q. running (mem c') q \<longrightarrow> q = p)"
    if "main c = Launch_thread w p d \<and> main_step c = Some c'" for w p d c'
  proof -
    from that have pc: "main c = Launch_thread w p d"
      and c': "c' = c\<lparr>mem := (mem c)\<lparr>watchers := watchers (mem c) @ [(p, d)]\<rparr>, main := Idle\<rparr>"
      by auto
    from S pc have slot: "active_local_process (mem c) = Some p"
      by (simp add: slot_ok_def)
    have "q = p" if "running (mem c) q" for q
      using 4 [OF that] slot pc by auto
    with slot show ?thesis by (simp add: c')
  qed
  have 7: "main c' = Idle \<and> active_local_process (mem c') = None \<and> (\<forall>q. \<not> running (mem c') q)"
    if "main c = Launch_spawn w d \<and> Popen_fault w = Some m \<and> main_step c = Some c'"
    for w d m c'
  proof -
    from that have pc: "main c = Launch_spawn w d"
      and c': "c' = c\<lparr>mem := remove_workspace w d (mem c), main := Idle\<rparr>"
      by auto
    from S pc have slot: "active_local_process (mem c) = None"
      by (simp add: slot_ok_def)
    have "\<not> running (mem c) q" for q
      using 4 [of q] slot pc by auto
    with slot show ?thesis by (simp add: c' remove_workspace_fields)
  qed
  have 8: "main c' = Idle \<and> active_local_process (mem c') = None \<and> (\<forall>q. \<not> running (mem c') q)"
    if "main c = Launch_prepare w code fs \<and> launch_prepare w code fs (mem c) = (Inl e, s) \<and>
      main_step c = Some c'"
    for w code fs e s c'
  proof -
    from that have pc: "main c = Launch_prepare w code fs"
      and lp: "launch_prepare w code fs (mem c) = (Inl e, s)"
      and c': "c' = c\<lparr>mem := s, main := Idle\<rparr>"
      by auto
    from S pc have slot: "active_local_process (mem c) = None"
      by (simp add: slot_ok_def)
    have nr: "\<not> running (mem c) q" for q
      using 4 [of q] slot pc by auto
    from launch_prepare_fields [OF lp]
    have f: "procs s = procs (mem c)" "active_local_process s = active_local_process (mem c)"
      by simp_all
    with nr slot show ?thesis by (simp add: c' running_def)
  qed
  from 1 2 3 4 5 6 7 8 show ?thesis by blast
qed


theorem registry_discipline_witness:
  "sexec sys0
     [Call_launch (calm (CompletedProcess [] [])) (py ''a'') None,
      Main_step, Main_step, Main_step, Main_step, Main_step,
      Main_step, Main_step, Main_step, Main_step, Main_step,
      Call_launch (calm (CompletedProcess [] [])) (py ''b'') None,
      Main_step, Main_step, Main_step, Main_step, Main_step,
      Main_step, Main_step, Main_step, Main_step] =
     Some \<lparr>mem = \<lparr>active_local_process = Some 1, procs = [Exited, Running],
                 signals = [(0, SIGTERM)],
                 dirs = [Some [py ''kata.py'' \<mapsto> Text (py ''a'')],
                         Some [py ''kata.py'' \<mapsto> Text (py ''b'')]],
                 watchers = [(0, 0)]\<rparr>,
           lock = None, main = Launch_thread (calm (CompletedProcess [] [])) 1 1,
           cleaners = (\<lambda>p. Cl_wait)\<rparr> \<and>
   main_step
     \<lparr>mem = \<lparr>active_local_process = Some 1, procs = [Exited, Running],
             signals = [(0, SIGTERM)],
             dirs = [Some [py ''kata.py'' \<mapsto> Text (py ''a'')],
                     Some [py ''kata.py'' \<mapsto> Text (py ''b'')]],
             watchers = [(0, 0)]\<rparr>,
      lock = None, main = Launch_thread (calm (CompletedProcess [] [])) 1 1,
      cleaners = (\<lambda>p. Cl_wait)\<rparr> =
     Some \<lparr>mem = \<lparr>active_local_process = Some 1, procs = [Exited, Running],
                 signals = [(0, SIGTERM)],
                 dirs = [Some [py ''kata.py'' \<mapsto> Text (py ''a'')],
                         Some [py ''kata.py'' \<mapsto> Text (py ''b'')]],
                 watchers = [(0, 0), (1, 1)]\<rparr>,
           lock = None, main = Idle, cleaners = (\<lambda>p. Cl_wait)\<rparr> \<and>
   active_local_process (mem
     \<lparr>mem = \<lparr>active_local_process = Some 1, procs = [Exited, Running],
             signals = [(0, SIGTERM)],
             dirs = [Some [py ''kata.py'' \<mapsto> Text (py ''a'')],
                     Some [py ''kata.py'' \<mapsto> Text (py ''b'')]],
             watchers = [(0, 0), (1, 1)]\<rparr>,
      lock = None, main = Idle, cleaners = (\<lambda>p. Cl_wait)\<rparr>) = Some 1"
proof -
  let ?w = "calm (CompletedProcess [] [])"
  let ?m = "\<lparr>active_local_process = Some 1, procs = [Exited, Running],
             signals = [(0, SIGTERM)],
             dirs = [Some [py ''kata.py'' \<mapsto> Text (py ''a'')],
                     Some [py ''kata.py'' \<mapsto> Text (py ''b'')]],
             watchers = [(0, 0)]\<rparr>"
  let ?c = "\<lparr>mem = ?m, lock = None, main = Launch_thread ?w 1 1, cleaners = (\<lambda>p. Cl_wait)\<rparr>"
  let ?c' = "\<lparr>mem = ?m\<lparr>watchers := [(0, 0), (1, 1)]\<rparr>, lock = None, main = Idle,
      cleaners = (\<lambda>p. Cl_wait)\<rparr>"
  have h1: "sexec sys0
     [Call_launch ?w (py ''a'') None,
      Main_step, Main_step, Main_step, Main_step, Main_step,
      Main_step, Main_step, Main_step, Main_step, Main_step,
      Call_launch ?w (py ''b'') None,
      Main_step, Main_step, Main_step, Main_step, Main_step,
      Main_step, Main_step, Main_step, Main_step] = Some ?c"
    by (simp add: sys_defs)
  have h2: "main_step ?c = Some ?c'"
    by simp
  have h: "main ?c = Launch_thread ?w 1 1 \<and> main_step ?c = Some ?c'"
    using h2 by simp
  note t = registry_discipline [OF h1, THEN conjunct2, THEN conjunct2, THEN conjunct2,
      THEN conjunct2, THEN conjunct2, THEN conjunct1, rule_format, OF h]
  have e: "active_local_process (mem ?c') = Some 1"
    using t [THEN conjunct2] by (rule conjunct1)
  show ?thesis
    using h1 h2 e by simp
qed

end
